theory Spec2Isabelle
  imports Complex_Main "HOL-Library.Multiset"
begin

section \<open>JavaScript values and array reads\<close>

text \<open>
  Board cells and shape-matrix entries are JavaScript values: the number \<open>0\<close> for an empty
  cell, \<open>1\<close> for an occupied shape entry, a colour string for a locked cell, and
  \<open>undefined\<close> for a read past the end of an array.
\<close>

datatype jsval = Num int | Str string | Undefined

fun truthy :: "jsval \<Rightarrow> bool" where
  "truthy (Num n) = (n \<noteq> 0)"
| "truthy (Str s) = (s \<noteq> [])"
| "truthy Undefined = False"

type_synonym matrix = "jsval list list"
type_synonym board = "jsval list list"

record position =
  row :: int
  col :: int

datatype error = TypeError

text \<open>
  \<open>xs[i]\<close> on an array of arrays: \<open>None\<close> stands for \<open>undefined\<close>, on which the next
  index operation throws a \<open>TypeError\<close>.
\<close>

definition rowAt :: "jsval list list \<Rightarrow> int \<Rightarrow> jsval list option" where
  "rowAt xs i = (if 0 \<le> i \<and> i < int (length xs) then Some (xs ! nat i) else None)"

text \<open>\<open>xs[i]\<close> on an array of values: a read out of range gives \<open>undefined\<close>.\<close>

definition cellAt :: "jsval list \<Rightarrow> int \<Rightarrow> jsval" where
  "cellAt xs i = (if 0 \<le> i \<and> i < int (length xs) then xs ! nat i else Undefined)"

section \<open>Game constants\<close>

definition COLS :: nat where "COLS = 10"
definition ROWS :: nat where "ROWS = 20"
definition BUFFER_ROWS :: nat where "BUFFER_ROWS = 20"
definition TOTAL_ROWS :: nat where "TOTAL_ROWS = ROWS + BUFFER_ROWS"

definition createEmptyBoard :: board where
  "createEmptyBoard = replicate TOTAL_ROWS (replicate COLS (Num 0))"

text \<open>The data model's board: \<open>TOTAL_ROWS\<close> rows of \<open>COLS\<close> cells each.\<close>

definition wf_board :: "board \<Rightarrow> bool" where
  "wf_board b = (length b = TOTAL_ROWS \<and> list_all (\<lambda>line. length line = COLS) b)"

section \<open>Collision\<close>

text \<open>
  The inner loop of \<open>checkCollision\<close> over the entries of one shape row, from column
  index \<open>c\<close> on. \<open>Inr True\<close> is the early \<open>return true\<close>, \<open>Inr False\<close> means the loop ran
  to its end.
\<close>

fun checkCols :: "board \<Rightarrow> position \<Rightarrow> int \<Rightarrow> int \<Rightarrow> jsval list \<Rightarrow> error + bool" where
  "checkCols b pos r c [] = Inr False"
| "checkCols b pos r c (v # vs) =
     (if truthy v then
        (let newRow = row pos + r; newCol = col pos + c in
         if newCol < 0 \<or> newCol \<ge> int COLS \<or> newRow \<ge> int TOTAL_ROWS then Inr True
         else if newRow \<ge> 0 then
           (case rowAt b newRow of
              None \<Rightarrow> Inl TypeError
            | Some line \<Rightarrow>
                if truthy (cellAt line newCol) then Inr True
                else checkCols b pos r (c + 1) vs)
         else checkCols b pos r (c + 1) vs)
      else checkCols b pos r (c + 1) vs)"

text \<open>The outer loop over the shape rows, from row index \<open>r\<close> on.\<close>

fun checkRows :: "board \<Rightarrow> position \<Rightarrow> int \<Rightarrow> matrix \<Rightarrow> error + bool" where
  "checkRows b pos r [] = Inr False"
| "checkRows b pos r (line # rest) =
     (case checkCols b pos r 0 line of
        Inl e \<Rightarrow> Inl e
      | Inr hit \<Rightarrow> if hit then Inr True else checkRows b pos (r + 1) rest)"

definition checkCollision :: "board \<Rightarrow> matrix \<Rightarrow> position \<Rightarrow> error + bool" where
  "checkCollision b piece pos = checkRows b pos 0 piece"

subsection \<open>The collision predicate in the words of the specification\<close>

text \<open>The occupied cells of a shape matrix, as (row, column) index pairs.\<close>

definition shapeCells :: "matrix \<Rightarrow> (nat \<times> nat) list" where
  "shapeCells m =
     concat (map (\<lambda>i. map (\<lambda>j. (i, j)) (filter (\<lambda>j. truthy (m ! i ! j)) [0..<length (m ! i)]))
                 [0..<length m])"

text \<open>
  A shape cell placed at board coordinates \<open>(r, c)\<close> is a collision source when it is
  outside the horizontal bounds, at or below the bottom bound, or on an occupied board
  cell; a cell above row 0 inside the horizontal bounds is not.
\<close>

definition cellCollides :: "board \<Rightarrow> int \<Rightarrow> int \<Rightarrow> bool" where
  "cellCollides b r c =
     (c < 0 \<or> int COLS \<le> c \<or> int TOTAL_ROWS \<le> r \<or> (0 \<le> r \<and> truthy (b ! nat r ! nat c)))"

definition collides :: "board \<Rightarrow> matrix \<Rightarrow> position \<Rightarrow> bool" where
  "collides b m pos =
     list_ex (\<lambda>(i, j). cellCollides b (row pos + int i) (col pos + int j)) (shapeCells m)"

section \<open>Piece catalogue and kick tables\<close>

datatype kind = KI | KO | KT | KS | KZ | KJ | KL

record tetromino =
  shape :: matrix
  color :: string

record piece = tetromino +
  type :: kind

definition nums :: "int list \<Rightarrow> jsval list" where
  "nums = map Num"

definition TETROMINOES :: "kind \<Rightarrow> tetromino" where
  "TETROMINOES k = (case k of
       KI \<Rightarrow> \<lparr>shape = map nums [[0,0,0,0], [1,1,1,1], [0,0,0,0], [0,0,0,0]], color = ''#00f0f0''\<rparr>
     | KO \<Rightarrow> \<lparr>shape = map nums [[1,1], [1,1]], color = ''#f0f000''\<rparr>
     | KT \<Rightarrow> \<lparr>shape = map nums [[0,1,0], [1,1,1], [0,0,0]], color = ''#a000f0''\<rparr>
     | KS \<Rightarrow> \<lparr>shape = map nums [[0,1,1], [1,1,0], [0,0,0]], color = ''#00f000''\<rparr>
     | KZ \<Rightarrow> \<lparr>shape = map nums [[1,1,0], [0,1,1], [0,0,0]], color = ''#f00000''\<rparr>
     | KJ \<Rightarrow> \<lparr>shape = map nums [[1,0,0], [1,1,1], [0,0,0]], color = ''#0000f0''\<rparr>
     | KL \<Rightarrow> \<lparr>shape = map nums [[0,0,1], [1,1,1], [0,0,0]], color = ''#f0a000''\<rparr>)"

text \<open>\<open>Object.keys(TETROMINOES)\<close>, in insertion order.\<close>

definition pieceKeys :: "kind list" where
  "pieceKeys = [KI, KO, KT, KS, KZ, KJ, KL]"

text \<open>
  The kick tables, keyed by the transition \<open>from->to\<close>; \<open>None\<close> is a key the table
  does not have. Each entry is a pair \<open>(kickX, kickY)\<close>.
\<close>

definition WALL_KICKS_JLSTZ :: "nat \<times> nat \<Rightarrow> (int \<times> int) list option" where
  "WALL_KICKS_JLSTZ key =
     (if key = (0, 1) then Some [(0,0), (-1,0), (-1,1), (0,-2), (-1,-2)]
      else if key = (1, 0) then Some [(0,0), (1,0), (1,-1), (0,2), (1,2)]
      else if key = (1, 2) then Some [(0,0), (1,0), (1,-1), (0,2), (1,2)]
      else if key = (2, 1) then Some [(0,0), (-1,0), (-1,1), (0,-2), (-1,-2)]
      else if key = (2, 3) then Some [(0,0), (1,0), (1,1), (0,-2), (1,-2)]
      else if key = (3, 2) then Some [(0,0), (-1,0), (-1,-1), (0,2), (-1,2)]
      else if key = (3, 0) then Some [(0,0), (-1,0), (-1,-1), (0,2), (-1,2)]
      else if key = (0, 3) then Some [(0,0), (1,0), (1,1), (0,-2), (1,-2)]
      else None)"

definition WALL_KICKS_I :: "nat \<times> nat \<Rightarrow> (int \<times> int) list option" where
  "WALL_KICKS_I key =
     (if key = (0, 1) then Some [(0,0), (-2,0), (1,0), (-2,-1), (1,2)]
      else if key = (1, 0) then Some [(0,0), (2,0), (-1,0), (2,1), (-1,-2)]
      else if key = (1, 2) then Some [(0,0), (-1,0), (2,0), (-1,2), (2,-1)]
      else if key = (2, 1) then Some [(0,0), (1,0), (-2,0), (1,-2), (-2,1)]
      else if key = (2, 3) then Some [(0,0), (2,0), (-1,0), (2,1), (-1,-2)]
      else if key = (3, 2) then Some [(0,0), (-2,0), (1,0), (-2,-1), (1,2)]
      else if key = (3, 0) then Some [(0,0), (1,0), (-2,0), (1,-2), (-2,1)]
      else if key = (0, 3) then Some [(0,0), (-1,0), (2,0), (-1,2), (2,-1)]
      else None)"

section \<open>Scoring constants\<close>

text \<open>
  The score is a JavaScript number, an IEEE 754 double. Every number the score
  arithmetic meets is an integer, an infinity or \<open>NaN\<close>: \<open>Fin n\<close> is the double whose
  value is the integer \<open>n\<close> (the two zeros are not told apart).
\<close>

datatype jsnum = Fin int | PosInf | NegInf | NaN

text \<open>The number of binary digits of a positive integer.\<close>

function bits :: "int \<Rightarrow> nat" where
  "bits a = (if a \<le> 0 then 0 else Suc (bits (a div 2)))"
  by pat_completeness auto
termination by (relation "measure nat") auto

declare bits.simps [simp del]

text \<open>
  The double nearest to an integer, ties to the even significand: an integer of
  magnitude up to \<open>2^53\<close> is a double; a larger one keeps its 53 leading binary digits,
  and one that rounds to \<open>2^1024\<close> or more overflows to an infinity.
\<close>

definition roundInt :: "int \<Rightarrow> jsnum" where
  "roundInt x =
     (let a = \<bar>x\<bar> in
      if a \<le> 2 ^ 53 then Fin x
      else
        (let e = bits a - 53;
             ulp = 2 ^ e;
             q = a div ulp;
             r = a mod ulp;
             q' = (if 2 * r < ulp then q
                   else if 2 * r > ulp then q + 1
                   else if even q then q else q + 1)
         in if bits q' + e > 1024 then (if x > 0 then PosInf else NegInf)
            else Fin (if x > 0 then q' * ulp else - (q' * ulp))))"

text \<open>
  \<open>+\<close> and \<open>*\<close> on these numbers: the exact sum or product of two integers, rounded;
  \<open>Infinity - Infinity\<close> and \<open>Infinity * 0\<close> are \<open>NaN\<close>.
\<close>

fun jsadd :: "jsnum \<Rightarrow> jsnum \<Rightarrow> jsnum" where
  "jsadd (Fin a) (Fin b) = roundInt (a + b)"
| "jsadd NaN _ = NaN"
| "jsadd _ NaN = NaN"
| "jsadd PosInf NegInf = NaN"
| "jsadd NegInf PosInf = NaN"
| "jsadd PosInf _ = PosInf"
| "jsadd NegInf _ = NegInf"
| "jsadd (Fin a) PosInf = PosInf"
| "jsadd (Fin a) NegInf = NegInf"

fun jsmul :: "jsnum \<Rightarrow> jsnum \<Rightarrow> jsnum" where
  "jsmul (Fin a) (Fin b) = roundInt (a * b)"
| "jsmul NaN _ = NaN"
| "jsmul _ NaN = NaN"
| "jsmul PosInf (Fin b) = (if b = 0 then NaN else if b > 0 then PosInf else NegInf)"
| "jsmul NegInf (Fin b) = (if b = 0 then NaN else if b > 0 then NegInf else PosInf)"
| "jsmul (Fin a) PosInf = (if a = 0 then NaN else if a > 0 then PosInf else NegInf)"
| "jsmul (Fin a) NegInf = (if a = 0 then NaN else if a > 0 then NegInf else PosInf)"
| "jsmul PosInf PosInf = PosInf"
| "jsmul PosInf NegInf = NegInf"
| "jsmul NegInf PosInf = NegInf"
| "jsmul NegInf NegInf = PosInf"

definition SCORE_SINGLE :: int where "SCORE_SINGLE = 100"
definition SCORE_DOUBLE :: int where "SCORE_DOUBLE = 300"
definition SCORE_TRIPLE :: int where "SCORE_TRIPLE = 500"
definition SCORE_TETRIS :: int where "SCORE_TETRIS = 800"
definition SCORE_SOFT_DROP :: int where "SCORE_SOFT_DROP = 1"
definition SCORE_HARD_DROP :: int where "SCORE_HARD_DROP = 2"

text \<open>
  \<open>lineScores[n]\<close> as a factor of a product: past the end of the five-entry array the
  read is \<open>undefined\<close>, which arithmetic turns into \<open>NaN\<close>.
\<close>

definition lineScores :: "nat \<Rightarrow> jsnum" where
  "lineScores n =
     (if n < 5 then Fin ([0, SCORE_SINGLE, SCORE_DOUBLE, SCORE_TRIPLE, SCORE_TETRIS] ! n) else NaN)"

definition LEVEL_SPEEDS :: "nat list" where
  "LEVEL_SPEEDS = [48, 43, 38, 33, 28, 23, 18, 13, 8, 6, 5, 5, 5, 4, 4, 4, 3, 3, 3,
                   2, 2, 2, 2, 2, 2, 2, 2, 2, 2, 1]"

section \<open>The 7-bag randomizer\<close>

text \<open>
  \<open>Math.random()\<close> returns a number in \<open>[0, 1)\<close>. The random source is a sequence of
  arbitrary reals of which the call number \<open>n\<close> takes the fractional part, and the
  product and the floor are exact, so that \<open>Math.floor(Math.random() * (i + 1))\<close> is some
  index in \<open>[0, i]\<close>. (The rounded product of the program stays below \<open>i + 1\<close> as well,
  for the \<open>i\<close> from 1 to 6 of a bag.)
\<close>

type_synonym random = "nat \<Rightarrow> real"

definition randomIndex :: "random \<Rightarrow> nat \<Rightarrow> nat \<Rightarrow> nat" where
  "randomIndex rnd n i = nat \<lfloor>frac (rnd n) * real (i + 1)\<rfloor>"

text \<open>
  The Fisher-Yates loop, \<open>i\<close> running down to 1 from the last index of the array, so
  that \<open>i\<close> and \<open>j \<le> i\<close> are indices of the array throughout; \<open>n\<close> counts the calls of
  \<open>Math.random\<close>. The destructuring swap reads both elements before it writes.
\<close>

fun shuffle :: "random \<Rightarrow> nat \<Rightarrow> nat \<Rightarrow> kind list \<Rightarrow> kind list \<times> nat" where
  "shuffle rnd n 0 pieces = (pieces, n)"
| "shuffle rnd n (Suc i) pieces =
     (let j = randomIndex rnd n (Suc i);
          atI = pieces ! Suc i;
          atJ = pieces ! j
      in shuffle rnd (n + 1) i (pieces[Suc i := atJ, j := atI]))"

definition generateBag :: "random \<Rightarrow> nat \<Rightarrow> kind list \<times> nat" where
  "generateBag rnd n = shuffle rnd n (length pieceKeys - 1) pieceKeys"

section \<open>Rotation of a shape matrix\<close>

text \<open>
  \<open>rotated[j][n - 1 - i] = matrix[i][j]\<close> for all \<open>i, j < n\<close>, starting from an \<open>n \<times> n\<close>
  matrix of zeros.
\<close>

definition rotateMatrix :: "matrix \<Rightarrow> matrix" where
  "rotateMatrix m =
     (let n = length m;
          rotated = replicate n (replicate n (Num 0))
      in fold (\<lambda>i rot.
           fold (\<lambda>j rot'. rot'[j := (rot' ! j)[n - 1 - i := cellAt (m ! i) (int j)]]) [0..<n] rot)
           [0..<n] rotated)"

section \<open>Ghost position\<close>

text \<open>
  The loop of \<open>getGhostPosition\<close>; it does not end when no row below collides, which is
  the result \<open>None\<close>.
\<close>

partial_function (option) ghostLoop :: "board \<Rightarrow> matrix \<Rightarrow> position \<Rightarrow> int \<Rightarrow> (error + int) option" where
  "ghostLoop b piece pos ghostRow =
     (case checkCollision b piece (pos\<lparr>row := ghostRow + 1\<rparr>) of
        Inl e \<Rightarrow> Some (Inl e)
      | Inr hit \<Rightarrow> if \<not> hit then ghostLoop b piece pos (ghostRow + 1) else Some (Inr ghostRow))"

declare ghostLoop.simps [code]

definition getGhostPosition :: "board \<Rightarrow> matrix \<Rightarrow> position \<Rightarrow> (error + int) option" where
  "getGhostPosition b piece pos = ghostLoop b piece pos (row pos)"

section \<open>Game state\<close>

datatype lockdown = Infinite | Extended | Classic

text \<open>
  The component's state variables and refs. \<open>nextPieces\<close> may hold \<open>undefined\<close>
  (\<open>None\<close>), the result of \<open>shift\<close> on an empty array; \<open>randomCalls\<close> counts the calls of
  \<open>Math.random\<close> so far.
\<close>

record game =
  board :: board
  currentPiece :: "piece option"
  position :: position
  rotation :: nat
  nextPieces :: "kind option list"
  holdPiece :: "kind option"
  canHold :: bool
  score :: jsnum
  lines :: nat
  level :: nat
  gameOver :: bool
  paused :: bool
  lockdownMode :: lockdown
  frameCount :: nat
  lockdownTimer :: nat
  lockdownMoves :: nat
  bag :: "kind list"
  randomCalls :: nat

text \<open>The initial values of the state variables and refs.\<close>

definition initialState :: game where
  "initialState =
     \<lparr>board = createEmptyBoard,
      currentPiece = None,
      position = \<lparr>row = 0, col = 3\<rparr>,
      rotation = 0,
      nextPieces = [],
      holdPiece = None,
      canHold = True,
      score = Fin 0,
      lines = 0,
      level = 1,
      gameOver = False,
      paused = False,
      lockdownMode = Extended,
      frameCount = 0,
      lockdownTimer = 0,
      lockdownMoves = 0,
      bag = [],
      randomCalls = 0\<rparr>"

text \<open>The active piece as \<open>spawnNewPiece\<close> builds it from the catalogue.\<close>

definition pieceOf :: "kind \<Rightarrow> piece" where
  "pieceOf k = \<lparr>shape = shape (TETROMINOES k), color = color (TETROMINOES k), type = k\<rparr>"

section \<open>Spawning and the piece queue\<close>

text \<open>
  \<open>spawnNewPiece\<close> reads the board its closure captured, the argument \<open>b\<close>; inside
  \<open>lockPiece\<close> and \<open>hardDrop\<close> that is the board of the render in which they were
  created, not the board they have just built.
\<close>

definition spawnNewPiece :: "board \<Rightarrow> kind option \<Rightarrow> game \<Rightarrow> error + game" where
  "spawnNewPiece b pieceType s =
     (case pieceType of
        None \<Rightarrow> Inr s
      | Some k \<Rightarrow>
          (let piece = TETROMINOES k;
               startRow = (if k = KI then int BUFFER_ROWS - 2 else int BUFFER_ROWS - 1);
               startCol = (if k = KO then 4 else 3);
               s1 = s\<lparr>currentPiece := Some (pieceOf k),
                      position := \<lparr>row = startRow, col = startCol\<rparr>,
                      rotation := 0,
                      canHold := True,
                      lockdownTimer := 0,
                      lockdownMoves := 0\<rparr>
           in case checkCollision b (shape piece) \<lparr>row = startRow, col = startCol\<rparr> of
                Inl e \<Rightarrow> Inl e
              | Inr hit \<Rightarrow> Inr (if hit then s1\<lparr>gameOver := True\<rparr> else s1)))"

text \<open>
  \<open>x.push(bag.current.shift())\<close> followed by the refill of a bag shorter than 7: the
  value drawn and the state after it.
\<close>

definition drawFromBag :: "random \<Rightarrow> game \<Rightarrow> kind option \<times> game" where
  "drawFromBag rnd s =
     (let drawn = (case bag s of [] \<Rightarrow> None | k # _ \<Rightarrow> Some k);
          s1 = s\<lparr>bag := tl (bag s)\<rparr>
      in if length (bag s1) < 7
         then (let (fresh, n) = generateBag rnd (randomCalls s1)
               in (drawn, s1\<lparr>bag := bag s1 @ fresh, randomCalls := n\<rparr>))
         else (drawn, s1))"

definition getNextPiece :: "random \<Rightarrow> game \<Rightarrow> kind option \<times> game" where
  "getNextPiece rnd s =
     (let next = nextPieces s;
          newPiece = (case next of [] \<Rightarrow> None | p # _ \<Rightarrow> p);
          (drawn, s1) = drawFromBag rnd s
      in (newPiece, s1\<lparr>nextPieces := tl next @ [drawn]\<rparr>))"

text \<open>\<open>bag.current = [...generateBag(), ...generateBag()]\<close> of the initialising effect.\<close>

definition initialBag :: "random \<Rightarrow> game \<Rightarrow> game" where
  "initialBag rnd s =
     (let (b1, n1) = generateBag rnd (randomCalls s);
          (b2, n2) = generateBag rnd n1
      in s\<lparr>bag := b1 @ b2, randomCalls := n2\<rparr>)"

text \<open>\<open>k\<close> successive draws from the bag, in order.\<close>

fun draws :: "random \<Rightarrow> nat \<Rightarrow> game \<Rightarrow> kind option list \<times> game" where
  "draws rnd 0 s = ([], s)"
| "draws rnd (Suc k) s =
     (let (d, s1) = drawFromBag rnd s; (ds, s2) = draws rnd k s1 in (d # ds, s2))"

subsection \<open>Bags in the words of the specification\<close>

text \<open>A list that holds every kind exactly once.\<close>

definition wholeBag :: "kind list \<Rightarrow> bool" where
  "wholeBag xs = (length xs = length pieceKeys \<and> list_all (\<lambda>k. count_list xs k = 1) pieceKeys)"

text \<open>A list of draws, of length \<open>7 n\<close>, that holds every kind exactly \<open>n\<close> times.\<close>

definition eachTimes :: "nat \<Rightarrow> kind option list \<Rightarrow> bool" where
  "eachTimes n ds = (length ds = n * length pieceKeys \<and> list_all (\<lambda>k. count_list ds (Some k) = n) pieceKeys)"

text \<open>
  A bag boundary: the bag ref holds one whole bag, or two, one after the other (the
  state the initialising effect builds).
\<close>

definition bagBoundary :: "game \<Rightarrow> bool" where
  "bagBoundary s =
     (wholeBag (bag s)
      \<or> (wholeBag (take 7 (bag s)) \<and> wholeBag (drop 7 (bag s))))"

section \<open>Locking and line clearing\<close>

text \<open>
  \<open>line[c] = v\<close>: inside the array it replaces the element, past the end it extends the
  array (the gap reads as \<open>undefined\<close>), and with a negative \<open>c\<close> it sets a property that
  is no element of the array.
\<close>

definition setIndex :: "jsval list \<Rightarrow> int \<Rightarrow> jsval \<Rightarrow> jsval list" where
  "setIndex line c v =
     (if c < 0 then line
      else if c < int (length line) then line[nat c := v]
      else line @ replicate (nat c - length line) Undefined @ [v])"

text \<open>\<open>newBoard[r][c] = v\<close>; a row that does not exist throws.\<close>

definition writeCell :: "board \<Rightarrow> int \<times> int \<Rightarrow> jsval \<Rightarrow> error + board" where
  "writeCell nb rc v =
     (case rowAt nb (fst rc) of
        None \<Rightarrow> Inl TypeError
      | Some line \<Rightarrow> Inr (nb[nat (fst rc) := setIndex line (snd rc) v]))"

text \<open>
  The pairs \<open>(boardRow, boardCol)\<close> at which the locking loop executes its assignment,
  in the order of the loop: the inner loop over one shape row, and the outer loop. Which
  assignments run depends on the shape and the position only.
\<close>

fun lockColsWrites :: "position \<Rightarrow> int \<Rightarrow> int \<Rightarrow> jsval list \<Rightarrow> (int \<times> int) list" where
  "lockColsWrites pos r c [] = []"
| "lockColsWrites pos r c (v # vs) =
     (if truthy v then
        (let boardRow = row pos + r; boardCol = col pos + c in
         if boardRow \<ge> 0 \<and> boardRow < int TOTAL_ROWS
         then (boardRow, boardCol) # lockColsWrites pos r (c + 1) vs
         else lockColsWrites pos r (c + 1) vs)
      else lockColsWrites pos r (c + 1) vs)"

fun lockRowsWrites :: "position \<Rightarrow> int \<Rightarrow> matrix \<Rightarrow> (int \<times> int) list" where
  "lockRowsWrites pos r [] = []"
| "lockRowsWrites pos r (line # rest) = lockColsWrites pos r 0 line @ lockRowsWrites pos (r + 1) rest"

definition lockWrites :: "matrix \<Rightarrow> position \<Rightarrow> (int \<times> int) list" where
  "lockWrites m pos = lockRowsWrites pos 0 m"

fun writeCells :: "board \<Rightarrow> (int \<times> int) list \<Rightarrow> jsval \<Rightarrow> error + board" where
  "writeCells nb [] v = Inr nb"
| "writeCells nb (rc # rcs) v =
     (case writeCell nb rc v of Inl e \<Rightarrow> Inl e | Inr nb' \<Rightarrow> writeCells nb' rcs v)"

text \<open>The copy of the board with the piece written into it.\<close>

definition lockInto :: "board \<Rightarrow> matrix \<Rightarrow> position \<Rightarrow> jsval \<Rightarrow> error + board" where
  "lockInto b m pos v = writeCells b (lockWrites m pos) v"

text \<open>\<open>line.every(cell => cell !== 0)\<close>.\<close>

definition rowFull :: "jsval list \<Rightarrow> bool" where
  "rowFull line = list_all (\<lambda>cell. cell \<noteq> Num 0) line"

text \<open>The scan for completed lines over the given row indices, in order.\<close>

fun scanCompleted :: "board \<Rightarrow> nat list \<Rightarrow> error + nat list" where
  "scanCompleted nb [] = Inr []"
| "scanCompleted nb (r # rs) =
     (case rowAt nb (int r) of
        None \<Rightarrow> Inl TypeError
      | Some line \<Rightarrow>
          (case scanCompleted nb rs of
             Inl e \<Rightarrow> Inl e
           | Inr found \<Rightarrow> Inr (if rowFull line then r # found else found)))"

definition completedLines :: "board \<Rightarrow> error + nat list" where
  "completedLines nb = scanCompleted nb [0..<TOTAL_ROWS]"

text \<open>\<open>newBoard.splice(lineRow, 1); newBoard.unshift(Array(COLS).fill(0))\<close>.\<close>

definition removeLine :: "board \<Rightarrow> nat \<Rightarrow> board" where
  "removeLine nb lineRow = replicate COLS (Num 0) # (take lineRow nb @ drop (Suc lineRow) nb)"

definition removeLines :: "board \<Rightarrow> nat list \<Rightarrow> board" where
  "removeLines nb completed = foldl removeLine nb completed"

definition lockPiece :: "random \<Rightarrow> game \<Rightarrow> error + game" where
  "lockPiece rnd s =
     (case currentPiece s of
        None \<Rightarrow> Inr s
      | Some cp \<Rightarrow>
          (case lockInto (board s) (shape cp) (position s) (Str (color cp)) of
             Inl e \<Rightarrow> Inl e
           | Inr newBoard \<Rightarrow>
               (case completedLines newBoard of
                  Inl e \<Rightarrow> Inl e
                | Inr completed \<Rightarrow>
                    (let s1 = (if length completed > 0
                               then s\<lparr>board := removeLines newBoard completed,
                                      score := jsadd (score s)
                                                 (jsmul (lineScores (length completed)) (roundInt (int (level s)))),
                                      lines := lines s + length completed,
                                      level := (lines s + length completed) div 10 + 1\<rparr>
                               else s\<lparr>board := newBoard\<rparr>);
                         (newPiece, s2) = getNextPiece rnd s1
                     in spawnNewPiece (board s) newPiece s2))))"

section \<open>Moving and rotating\<close>

definition movePiece :: "int \<Rightarrow> int \<Rightarrow> game \<Rightarrow> error + (bool \<times> game)" where
  "movePiece rowDelta colDelta s =
     (case currentPiece s of
        None \<Rightarrow> Inr (False, s)
      | Some cp \<Rightarrow>
          if gameOver s \<or> paused s then Inr (False, s)
          else
            (let newPosition = \<lparr>row = row (position s) + rowDelta, col = col (position s) + colDelta\<rparr>
             in case checkCollision (board s) (shape cp) newPosition of
                  Inl e \<Rightarrow> Inl e
                | Inr hit \<Rightarrow>
                    if \<not> hit then
                      (let s1 = s\<lparr>position := newPosition\<rparr> in
                       if rowDelta = 0 then
                         (case checkCollision (board s) (shape cp)
                                 \<lparr>row = row newPosition + 1, col = col newPosition\<rparr> of
                            Inl e \<Rightarrow> Inl e
                          | Inr isOnGround \<Rightarrow>
                              if isOnGround then
                                (let s2 = s1\<lparr>lockdownMoves := lockdownMoves s1 + 1\<rparr> in
                                 Inr (True,
                                   (case lockdownMode s of
                                      Classic \<Rightarrow> s2
                                    | Extended \<Rightarrow>
                                        if lockdownMoves s2 < 15 then s2\<lparr>lockdownTimer := 0\<rparr> else s2
                                    | Infinite \<Rightarrow> s2\<lparr>lockdownTimer := 0\<rparr>)))
                              else Inr (True, s1))
                       else Inr (True, s1))
                    else Inr (False, s)))"

text \<open>JavaScript's \<open>%\<close> for a positive divisor: the sign follows the dividend.\<close>

definition jsRem :: "int \<Rightarrow> int \<Rightarrow> int" where
  "jsRem a b = (if a < 0 then - ((- a) mod b) else a mod b)"

text \<open>
  The loop over the kick candidates. The first candidate that does not collide is
  accepted: shape, position and rotation state are set and the lockdown accounting
  runs; when the list is exhausted nothing has been set.
\<close>

fun tryKicks :: "game \<Rightarrow> piece \<Rightarrow> matrix \<Rightarrow> nat \<Rightarrow> (int \<times> int) list \<Rightarrow> error + game" where
  "tryKicks s cp rotatedShape newRotation [] = Inr s"
| "tryKicks s cp rotatedShape newRotation (kick # kicks) =
     (let kickX = fst kick; kickY = snd kick;
          newPosition = \<lparr>row = row (position s) - kickY, col = col (position s) + kickX\<rparr>
      in case checkCollision (board s) rotatedShape newPosition of
           Inl e \<Rightarrow> Inl e
         | Inr hit \<Rightarrow>
             if \<not> hit then
               (let s1 = s\<lparr>currentPiece := Some (cp\<lparr>shape := rotatedShape\<rparr>),
                           position := newPosition,
                           rotation := newRotation\<rparr>
                in if lockdownMode s \<noteq> Classic then
                     (case checkCollision (board s) rotatedShape
                             \<lparr>row = row newPosition + 1, col = col newPosition\<rparr> of
                        Inl e \<Rightarrow> Inl e
                      | Inr isOnGround \<Rightarrow>
                          if isOnGround then
                            (let s2 = s1\<lparr>lockdownMoves := lockdownMoves s1 + 1\<rparr> in
                             if lockdownMode s = Infinite
                                \<or> (lockdownMode s = Extended \<and> lockdownMoves s2 < 15)
                             then Inr (s2\<lparr>lockdownTimer := 0\<rparr>)
                             else Inr s2)
                          else Inr s1)
                   else Inr s1)
             else tryKicks s cp rotatedShape newRotation kicks)"

text \<open>The parts of \<open>rotatePiece\<close> before the loop, by name.\<close>

definition newRotationOf :: "bool \<Rightarrow> nat \<Rightarrow> nat" where
  "newRotationOf clockwise rot = (if clockwise then (rot + 1) mod 4 else (rot + 3) mod 4)"

definition rotationsOf :: "bool \<Rightarrow> nat \<Rightarrow> int" where
  "rotationsOf clockwise rot =
     (if clockwise
      then jsRem (int (newRotationOf clockwise rot) - int rot + 4) 4
      else jsRem (int rot - int (newRotationOf clockwise rot) + 4) 4)"

text \<open>\<open>for (let i = 0; i < rotations; i++) rotatedShape = rotateMatrix(rotatedShape)\<close>.\<close>

definition rotatedShapeOf :: "bool \<Rightarrow> nat \<Rightarrow> matrix \<Rightarrow> matrix" where
  "rotatedShapeOf clockwise rot m = (rotateMatrix ^^ nat (rotationsOf clockwise rot)) m"

text \<open>\<open>kickTable[kickKey] || [[0, 0]]\<close>.\<close>

definition kicksOf :: "kind \<Rightarrow> nat \<Rightarrow> nat \<Rightarrow> (int \<times> int) list" where
  "kicksOf k rot newRotation =
     (let kickTable = (if k = KI then WALL_KICKS_I else WALL_KICKS_JLSTZ)
      in case kickTable (rot, newRotation) of Some ks \<Rightarrow> ks | None \<Rightarrow> [(0, 0)])"

definition rotatePiece :: "bool \<Rightarrow> game \<Rightarrow> error + game" where
  "rotatePiece clockwise s =
     (case currentPiece s of
        None \<Rightarrow> Inr s
      | Some cp \<Rightarrow>
          if gameOver s \<or> paused s then Inr s
          else
            (let newRotation = newRotationOf clockwise (rotation s);
                 rotatedShape = rotatedShapeOf clockwise (rotation s) (shape cp)
             in if type cp = KO then Inr s
                else tryKicks s cp rotatedShape newRotation
                       (kicksOf (type cp) (rotation s) newRotation)))"

section \<open>Hard drop\<close>

definition hardDrop :: "random \<Rightarrow> game \<Rightarrow> (error + game) option" where
  "hardDrop rnd s =
     (case currentPiece s of
        None \<Rightarrow> Some (Inr s)
      | Some cp \<Rightarrow>
          if gameOver s \<or> paused s then Some (Inr s)
          else
            (case getGhostPosition (board s) (shape cp) (position s) of
               None \<Rightarrow> None
             | Some (Inl e) \<Rightarrow> Some (Inl e)
             | Some (Inr ghostRow) \<Rightarrow>
                 Some
                   (let dropDistance = ghostRow - row (position s) in
                    case lockInto (board s) (shape cp) ((position s)\<lparr>row := ghostRow\<rparr>) (Str (color cp)) of
                      Inl e \<Rightarrow> Inl e
                    | Inr newBoard \<Rightarrow>
                        (case completedLines newBoard of
                           Inl e \<Rightarrow> Inl e
                         | Inr completed \<Rightarrow>
                             (let s1 = (if length completed > 0
                                        then s\<lparr>score := jsadd
                                                 (jsadd (score s)
                                                    (jsmul (lineScores (length completed)) (roundInt (int (level s)))))
                                                 (jsmul (roundInt dropDistance) (Fin SCORE_HARD_DROP)),
                                               lines := lines s + length completed,
                                               level := (lines s + length completed) div 10 + 1\<rparr>
                                        else s\<lparr>score := jsadd (score s) (jsmul (roundInt dropDistance) (Fin SCORE_HARD_DROP))\<rparr>);
                                  s2 = s1\<lparr>board := (if length completed > 0
                                                     then removeLines newBoard completed else newBoard)\<rparr>;
                                  (newPiece, s3) = getNextPiece rnd s2
                              in spawnNewPiece (board s) newPiece s3)))))"

section \<open>The game loop\<close>

text \<open>
  One call of \<open>gameLoop\<close>. The effect that owns the loop does not start it when the game
  is over or paused or there is no piece (\<open>NotRunning\<close>); a call ends either after
  \<open>lockPiece\<close> (\<open>Locked\<close>) or by requesting the next animation frame (\<open>Scheduled\<close>).
\<close>

datatype outcome = Locked | Scheduled | NotRunning

text \<open>
  \<open>LEVEL_SPEEDS[Math.min(level - 1, LEVEL_SPEEDS.length - 1)]\<close>; at level 0 the index
  is -1 and the read is \<open>undefined\<close> (\<open>None\<close>).
\<close>

definition speedOf :: "nat \<Rightarrow> nat option" where
  "speedOf lvl = (if lvl = 0 then None else Some (LEVEL_SPEEDS ! min (lvl - 1) (length LEVEL_SPEEDS - 1)))"

definition shouldLock :: "lockdown \<Rightarrow> nat \<Rightarrow> nat \<Rightarrow> bool" where
  "shouldLock mode timer moves =
     (case mode of
        Classic \<Rightarrow> timer \<ge> 15
      | Extended \<Rightarrow> timer \<ge> 30 \<or> moves \<ge> 15
      | Infinite \<Rightarrow> timer \<ge> 90)"

text \<open>The gravity step at the end of a call that did not lock.\<close>

definition gravity :: "game \<Rightarrow> error + game" where
  "gravity s =
     (if (case speedOf (level s) of None \<Rightarrow> False | Some speed \<Rightarrow> frameCount s \<ge> speed) then
        (case movePiece 1 0 (s\<lparr>frameCount := 0\<rparr>) of
           Inl e \<Rightarrow> Inl e
         | Inr (moved, s1) \<Rightarrow>
             if \<not> moved then Inr s1
             else Inr (s1\<lparr>lockdownTimer := 0, lockdownMoves := 0\<rparr>))
      else Inr s)"

definition gameLoop :: "random \<Rightarrow> game \<Rightarrow> error + (outcome \<times> game)" where
  "gameLoop rnd s =
     (case currentPiece s of
        None \<Rightarrow> Inr (NotRunning, s)
      | Some cp \<Rightarrow>
          if gameOver s \<or> paused s then Inr (NotRunning, s)
          else
            (let s0 = s\<lparr>frameCount := frameCount s + 1\<rparr> in
             case checkCollision (board s) (shape cp)
                    \<lparr>row = row (position s) + 1, col = col (position s)\<rparr> of
               Inl e \<Rightarrow> Inl e
             | Inr isOnGround \<Rightarrow>
                 if isOnGround then
                   (let s1 = s0\<lparr>lockdownTimer := lockdownTimer s0 + 1\<rparr> in
                    if shouldLock (lockdownMode s) (lockdownTimer s1) (lockdownMoves s1) then
                      (case lockPiece rnd s1 of
                         Inl e \<Rightarrow> Inl e
                       | Inr s2 \<Rightarrow> Inr (Locked, s2))
                    else
                      (case gravity s1 of Inl e \<Rightarrow> Inl e | Inr s2 \<Rightarrow> Inr (Scheduled, s2)))
                 else
                   (case gravity s0 of Inl e \<Rightarrow> Inl e | Inr s2 \<Rightarrow> Inr (Scheduled, s2))))"

text \<open>
  The loop as the animation frames drive it: up to \<open>n\<close> calls, each on the state the
  previous one left, ending early when a call does not request the next frame.
\<close>

fun runTicks :: "random \<Rightarrow> nat \<Rightarrow> game \<Rightarrow> error + (outcome \<times> game)" where
  "runTicks rnd 0 s = Inr (Scheduled, s)"
| "runTicks rnd (Suc n) s =
     (case gameLoop rnd s of
        Inl e \<Rightarrow> Inl e
      | Inr (oc, s1) \<Rightarrow> if oc = Scheduled then runTicks rnd n s1 else Inr (oc, s1))"

section \<open>The move evaluator\<close>

text \<open>
  The heuristic score is a floating-point number. Its arithmetic is a parameter of the
  model: a type \<open>'f\<close> of numbers, the conversion of an integer count, the four weight
  literals, and addition, subtraction and multiplication. The comparison \<open>>\<close> is the
  order of \<open>'f\<close>. Every count here is an integer between 0 and 400, so no operation
  yields \<open>NaN\<close> or an infinity.
\<close>

record 'f arith =
  fnum :: "int \<Rightarrow> 'f"
  c051 :: 'f
  c076 :: 'f
  c036 :: 'f
  c018 :: 'f
  fadd :: "'f \<Rightarrow> 'f \<Rightarrow> 'f"
  fsub :: "'f \<Rightarrow> 'f \<Rightarrow> 'f"
  fmul :: "'f \<Rightarrow> 'f \<Rightarrow> 'f"













subsection \<open>The enumerated placements in the words of the specification\<close>








text \<open>
  On-ground: there is an active piece, the game runs, and the piece cannot move down one
  more row.
\<close>

definition onGround :: "game \<Rightarrow> bool" where
  "onGround s =
     (case currentPiece s of
        None \<Rightarrow> False
      | Some cp \<Rightarrow>
          \<not> gameOver s \<and> \<not> paused s
          \<and> checkCollision (board s) (shape cp)
               \<lparr>row = row (position s) + 1, col = col (position s)\<rparr> = Inr True)"

section \<open>Example states\<close>

text \<open>
  A T piece lying on the floor under an overhang: the board is empty but for the cell at
  row 37, column 3.
\<close>

definition blockedT :: game where
  "blockedT = initialState
     \<lparr>board := createEmptyBoard[37 := (createEmptyBoard ! 37)[3 := Str ''#f00000'']],
      currentPiece := Some (pieceOf KT),
      position := \<lparr>row = 38, col = 3\<rparr>\<rparr>"

text \<open>A board whose first visible row holds one locked cell, in column 4.\<close>

definition toppedBoard :: board where
  "toppedBoard = createEmptyBoard[20 := (createEmptyBoard ! 20)[4 := Str ''#f00000'']]"

text \<open>A freshly spawned T piece on the empty board.\<close>

definition freshT :: game where
  "freshT = initialState\<lparr>currentPiece := Some (pieceOf KT), position := \<lparr>row = 19, col = 3\<rparr>\<rparr>"

text \<open>A random source all of whose values are 0.\<close>

definition noRandom :: random where
  "noRandom = (\<lambda>_. 0)"

text \<open>A locked row with gaps at the given columns.\<close>

definition gapRow :: "nat list \<Rightarrow> jsval list" where
  "gapRow gaps = map (\<lambda>c. if c \<in> set gaps then Num 0 else Str ''#f00000'') [0..<COLS]"

text \<open>
  An O piece resting in the two-column gap of the two bottom rows, under a row that holds
  one locked cell.
\<close>

definition twoLines :: game where
  "twoLines = initialState
     \<lparr>board := createEmptyBoard[37 := (createEmptyBoard ! 37)[0 := Str ''#00f000''],
                                 38 := gapRow [4, 5], 39 := gapRow [4, 5]],
      currentPiece := Some (pieceOf KO),
      position := \<lparr>row = 38, col = 4\<rparr>,
      nextPieces := [Some KT, Some KS, Some KZ, Some KJ, Some KL],
      bag := pieceKeys @ pieceKeys\<rparr>"

text \<open>Level 1: an O piece whose lower half fills the gap of the bottom row.\<close>

definition oneLine :: game where
  "oneLine = initialState
     \<lparr>board := createEmptyBoard[39 := gapRow [4, 5]],
      currentPiece := Some (pieceOf KO),
      position := \<lparr>row = 38, col = 4\<rparr>,
      nextPieces := [Some KT, Some KS, Some KZ, Some KJ, Some KL],
      bag := pieceKeys @ pieceKeys\<rparr>"

text \<open>Level 3: an upright I piece in the one-column gap of the four bottom rows.\<close>

definition fourLines :: game where
  "fourLines = initialState
     \<lparr>board := createEmptyBoard[36 := gapRow [4], 37 := gapRow [4], 38 := gapRow [4], 39 := gapRow [4]],
      currentPiece := Some ((pieceOf KI)\<lparr>shape := rotateMatrix (shape (pieceOf KI))\<rparr>),
      position := \<lparr>row = 36, col = 2\<rparr>,
      rotation := 1,
      lines := 20,
      level := 3,
      nextPieces := [Some KT, Some KS, Some KZ, Some KJ, Some KL],
      bag := pieceKeys @ pieceKeys\<rparr>"

text \<open>The boards of the last two states with the piece written into them.\<close>

definition oneLineLocked :: board where
  "oneLineLocked = createEmptyBoard
     [38 := (createEmptyBoard ! 38)[4 := Str ''#f0f000'', 5 := Str ''#f0f000''],
      39 := (gapRow [4, 5])[4 := Str ''#f0f000'', 5 := Str ''#f0f000'']]"

definition fourLinesLocked :: board where
  "fourLinesLocked = createEmptyBoard
     [36 := (gapRow [4])[4 := Str ''#00f0f0''], 37 := (gapRow [4])[4 := Str ''#00f0f0''],
      38 := (gapRow [4])[4 := Str ''#00f0f0''], 39 := (gapRow [4])[4 := Str ''#00f0f0'']]"

text \<open>A T piece resting on the floor of the empty board, in a given mode and with a given timer.\<close>

definition restingT :: "lockdown \<Rightarrow> nat \<Rightarrow> game" where
  "restingT mode timer = initialState
     \<lparr>currentPiece := Some (pieceOf KT),
      position := \<lparr>row = 38, col = 3\<rparr>,
      lockdownMode := mode,
      lockdownTimer := timer,
      nextPieces := [Some KO, Some KS, Some KZ, Some KJ, Some KL],
      bag := pieceKeys @ pieceKeys\<rparr>"

text \<open>
  A T piece at its spawn position, resting on a row of locked cells just below it; the
  next piece in the queue is a T as well.
\<close>

definition stackedT :: game where
  "stackedT = initialState
     \<lparr>board := createEmptyBoard[21 := gapRow [0, 9]],
      currentPiece := Some (pieceOf KT),
      position := \<lparr>row = 19, col = 3\<rparr>,
      nextPieces := [Some KT, Some KS, Some KZ, Some KJ, Some KL],
      bag := pieceKeys @ pieceKeys\<rparr>"


section \<open>Properties\<close>

lemma wf_board_rowAt:
  assumes "wf_board b" "0 \<le> r" "r < int TOTAL_ROWS"
  shows "rowAt b r = Some (b ! nat r)"
  using assms by (simp add: wf_board_def rowAt_def)

lemma wf_board_cellAt:
  assumes "wf_board b" "0 \<le> r" "r < int TOTAL_ROWS" "0 \<le> c" "c < int COLS"
  shows "cellAt (b ! nat r) c = b ! nat r ! nat c"
proof -
  have "nat r < length b" using assms by (simp add: wf_board_def)
  then have "length (b ! nat r) = COLS"
    using assms(1) by (simp add: wf_board_def list_all_length)
  then show ?thesis using assms by (simp add: cellAt_def)
qed

lemma checkCols_spec:
  assumes "wf_board b"
  shows "checkCols b pos r c vs =
           Inr (\<exists>k<length vs. truthy (vs ! k) \<and> cellCollides b (row pos + r) (col pos + c + int k))"
proof (induction vs arbitrary: c)
  case Nil
  show ?case by simp
next
  case (Cons v vs)
  have step: "(\<exists>k<length vs. truthy (vs ! k) \<and> cellCollides b (row pos + r) (col pos + (c + 1) + int k))
            = (\<exists>k<length vs. truthy ((v # vs) ! Suc k) \<and> cellCollides b (row pos + r) (col pos + c + int (Suc k)))"
    by (simp add: algebra_simps)
  show ?case
  proof (cases "truthy v")
    case False
    then show ?thesis
      unfolding checkCols.simps Cons.IH step length_Cons Ex_less_Suc2 by simp
  next
    case True
    show ?thesis
    proof (cases "col pos + c < 0 \<or> col pos + c \<ge> int COLS \<or> row pos + r \<ge> int TOTAL_ROWS")
      case oob: True
      then have "cellCollides b (row pos + r) (col pos + c + int 0)"
        by (auto simp: cellCollides_def)
      then show ?thesis
        unfolding checkCols.simps length_Cons Ex_less_Suc2 using True oob by (simp add: Let_def)
    next
      case inb: False
      show ?thesis
      proof (cases "0 \<le> row pos + r")
        case neg: False
        then have "\<not> cellCollides b (row pos + r) (col pos + c + int 0)"
          using inb by (auto simp: cellCollides_def)
        then show ?thesis
          unfolding checkCols.simps Cons.IH step length_Cons Ex_less_Suc2
          using True inb neg by (simp add: Let_def)
      next
        case nonneg: True
        have ra: "rowAt b (row pos + r) = Some (b ! nat (row pos + r))"
          using wf_board_rowAt [OF assms] nonneg inb by simp
        have ca: "cellAt (b ! nat (row pos + r)) (col pos + c) = b ! nat (row pos + r) ! nat (col pos + c)"
          using wf_board_cellAt [OF assms] nonneg inb by simp
        have cc: "cellCollides b (row pos + r) (col pos + c + int 0)
                  = truthy (b ! nat (row pos + r) ! nat (col pos + c))"
          using inb nonneg by (auto simp: cellCollides_def)
        show ?thesis
          unfolding checkCols.simps Cons.IH step length_Cons Ex_less_Suc2 cc
          using True inb nonneg by (simp add: Let_def ra ca)
      qed
    qed
  qed
qed

lemma checkRows_spec:
  assumes "wf_board b"
  shows "checkRows b pos r m =
           Inr (\<exists>i<length m. \<exists>k<length (m ! i). truthy (m ! i ! k) \<and>
                  cellCollides b (row pos + r + int i) (col pos + int k))"
proof (induction m arbitrary: r)
  case Nil
  show ?case by simp
next
  case (Cons line rest)
  have step: "(\<exists>i<length rest. \<exists>k<length (rest ! i). truthy (rest ! i ! k) \<and>
                  cellCollides b (row pos + (r + 1) + int i) (col pos + int k))
            = (\<exists>i<length rest. \<exists>k<length ((line # rest) ! Suc i). truthy ((line # rest) ! Suc i ! k) \<and>
                  cellCollides b (row pos + r + int (Suc i)) (col pos + int k))"
    by (simp add: algebra_simps)
  show ?case
    unfolding checkRows.simps checkCols_spec [OF assms] Cons.IH step length_Cons Ex_less_Suc2
    by auto
qed

lemma collides_iff:
  "collides b m pos =
     (\<exists>i<length m. \<exists>j<length (m ! i). truthy (m ! i ! j) \<and>
         cellCollides b (row pos + int i) (col pos + int j))"
  unfolding collides_def shapeCells_def list_ex_iff by auto

lemma checkCollision_collides:
  assumes "wf_board b"
  shows "checkCollision b m pos = Inr (collides b m pos)"
  unfolding checkCollision_def checkRows_spec [OF assms] collides_iff by simp

lemma wf_createEmptyBoard: "wf_board createEmptyBoard"
  by (simp add: wf_board_def createEmptyBoard_def list_all_length)

subsection \<open>Collision is the specified predicate\<close>

text \<open>
  C1: on every board of the data model, for every shape matrix and every position,
  \<open>checkCollision\<close> returns true if and only if some occupied cell of the shape, placed
  at the position, is outside the horizontal bounds \<open>[0, 10)\<close>, at row 40 or beyond, or on
  an occupied board cell. Cells at negative rows are no collision source by themselves:
  a shape all of whose occupied cells are above row 0 and inside the horizontal bounds
  does not collide.
\<close>

theorem checkCollision_iff_collides:
  assumes "wf_board b"
  shows "checkCollision b m pos = Inr (collides b m pos) \<and>
         (list_all (\<lambda>(i, j). row pos + int i < 0 \<and> 0 \<le> col pos + int j \<and> col pos + int j < int COLS)
                   (shapeCells m)
          \<longrightarrow> checkCollision b m pos = Inr False)"
proof -
  have main: "checkCollision b m pos = Inr (collides b m pos)"
    by (rule checkCollision_collides [OF assms])
  have "\<not> collides b m pos"
    if "list_all (\<lambda>(i, j). row pos + int i < 0 \<and> 0 \<le> col pos + int j \<and> col pos + int j < int COLS)
                 (shapeCells m)"
    using that unfolding collides_def list_ex_iff list_all_iff cellCollides_def by fastforce
  with main show ?thesis by simp
qed

theorem checkCollision_iff_collides_witness:
  "wf_board createEmptyBoard
   \<and> checkCollision createEmptyBoard (shape (TETROMINOES KT)) \<lparr>row = 39, col = 3\<rparr> = Inr True
   \<and> list_all (\<lambda>(i, j). row \<lparr>row = -5, col = 3\<rparr> + int i < 0
                        \<and> 0 \<le> col \<lparr>row = -5, col = 3\<rparr> + int j
                        \<and> col \<lparr>row = -5, col = 3\<rparr> + int j < int COLS)
              (shapeCells (shape (TETROMINOES KT)))
   \<and> checkCollision createEmptyBoard (shape (TETROMINOES KT)) \<lparr>row = -5, col = 3\<rparr> = Inr False"
proof -
  note low = checkCollision_iff_collides
    [OF wf_createEmptyBoard, of "shape (TETROMINOES KT)" "\<lparr>row = 39, col = 3\<rparr>"]
  note high = checkCollision_iff_collides
    [OF wf_createEmptyBoard, of "shape (TETROMINOES KT)" "\<lparr>row = -5, col = 3\<rparr>"]
  have c: "collides createEmptyBoard (shape (TETROMINOES KT)) \<lparr>row = 39, col = 3\<rparr>"
    by code_simp
  have n: "list_all (\<lambda>(i, j). row \<lparr>row = -5, col = 3\<rparr> + int i < 0
                        \<and> 0 \<le> col \<lparr>row = -5, col = 3\<rparr> + int j
                        \<and> col \<lparr>row = -5, col = 3\<rparr> + int j < int COLS)
             (shapeCells (shape (TETROMINOES KT)))"
    by code_simp
  have r1: "checkCollision createEmptyBoard (shape (TETROMINOES KT)) \<lparr>row = 39, col = 3\<rparr> = Inr True"
    using low c by (simp only: simp_thms)
  have r2: "checkCollision createEmptyBoard (shape (TETROMINOES KT)) \<lparr>row = -5, col = 3\<rparr> = Inr False"
    using high n by blast
  show ?thesis
    using wf_createEmptyBoard r1 n r2 by blast
qed

subsection \<open>A rotation that no kick candidate admits\<close>

lemma tryKicks_all_collide:
  assumes "list_all (\<lambda>kick. checkCollision (board s) rotatedShape
                       \<lparr>row = row (position s) - snd kick, col = col (position s) + fst kick\<rparr> = Inr True)
                    kicks"
  shows "tryKicks s cp rotatedShape newRotation kicks = Inr s"
  using assms by (induction kicks) (simp_all add: Let_def)

lemma kicksOf_length:
  assumes "rot < 4"
  shows "length (kicksOf k rot (newRotationOf clockwise rot)) = 5"
proof -
  from assms have "rot = 0 \<or> rot = 1 \<or> rot = 2 \<or> rot = 3" by arith
  then show ?thesis
    by (auto simp: kicksOf_def newRotationOf_def WALL_KICKS_I_def WALL_KICKS_JLSTZ_def)
qed

text \<open>
  C3: for every piece, board, position and rotation direction, if every kick candidate
  of the attempted transition gives a colliding placement of the rotated shape, the
  attempt changes nothing: \<open>rotatePiece\<close> returns the state it was given, with the same
  shape matrix, position and rotation state. For a rotation state in \<open>{0, 1, 2, 3}\<close> the
  candidates are five.
\<close>

theorem rotatePiece_rejected_unchanged:
  assumes "currentPiece s = Some cp"
    and "list_all (\<lambda>kick. checkCollision (board s) (rotatedShapeOf clockwise (rotation s) (shape cp))
                       \<lparr>row = row (position s) - snd kick, col = col (position s) + fst kick\<rparr> = Inr True)
                  (kicksOf (type cp) (rotation s) (newRotationOf clockwise (rotation s)))"
  shows "rotatePiece clockwise s = Inr s
         \<and> (rotation s < 4 \<longrightarrow>
              length (kicksOf (type cp) (rotation s) (newRotationOf clockwise (rotation s))) = 5)"
  using assms tryKicks_all_collide [OF assms(2)] kicksOf_length
  by (simp add: rotatePiece_def Let_def)

theorem rotatePiece_rejected_unchanged_witness:
  "currentPiece blockedT = Some (pieceOf KT)
   \<and> list_all (\<lambda>kick. checkCollision (board blockedT)
                         (rotatedShapeOf True (rotation blockedT) (shape (pieceOf KT)))
                         \<lparr>row = row (position blockedT) - snd kick,
                          col = col (position blockedT) + fst kick\<rparr> = Inr True)
               (kicksOf (type (pieceOf KT)) (rotation blockedT) (newRotationOf True (rotation blockedT)))
   \<and> rotation blockedT < 4
   \<and> rotatePiece True blockedT = Inr blockedT
   \<and> length (kicksOf (type (pieceOf KT)) (rotation blockedT) (newRotationOf True (rotation blockedT))) = 5"
proof -
  have cp: "currentPiece blockedT = Some (pieceOf KT)"
    by (simp add: blockedT_def)
  have all: "list_all (\<lambda>kick. checkCollision (board blockedT)
                         (rotatedShapeOf True (rotation blockedT) (shape (pieceOf KT)))
                         \<lparr>row = row (position blockedT) - snd kick,
                          col = col (position blockedT) + fst kick\<rparr> = Inr True)
               (kicksOf (type (pieceOf KT)) (rotation blockedT) (newRotationOf True (rotation blockedT)))"
    by code_simp
  have rot: "rotation blockedT < 4"
    by (simp add: blockedT_def initialState_def)
  show ?thesis
    using rotatePiece_rejected_unchanged [OF cp all] cp all rot by blast
qed

subsection \<open>A spawn onto occupied cells\<close>

text \<open>
  \<open>spawnNewPiece\<close> by itself: for every board \<open>b\<close> that it checks and every piece kind, if
  the shape of the kind in rotation state 0, placed at the spawn position (column 4 for O
  and 3 otherwise, row 19, the last row of the buffer region just above the visible
  field, and one row higher for I), collides with \<open>b\<close>, the spawn sets \<open>gameOver\<close>, and it
  leaves the board of the state as it was.
\<close>

lemma spawnNewPiece_checked_board:
  assumes "checkCollision b (shape (TETROMINOES k))
             \<lparr>row = (if k = KI then 18 else 19), col = (if k = KO then 4 else 3)\<rparr> = Inr True"
  shows "\<exists>s'. spawnNewPiece b (Some k) s = Inr s'
              \<and> gameOver s'
              \<and> board s' = board s
              \<and> currentPiece s' = Some (pieceOf k)
              \<and> rotation s' = 0
              \<and> position s' = \<lparr>row = (if k = KI then 18 else 19), col = (if k = KO then 4 else 3)\<rparr>"
  using assms by (auto simp: spawnNewPiece_def Let_def BUFFER_ROWS_def)

text \<open>
  C8 does not hold of the spawns that follow a lock. The board that \<open>spawnNewPiece\<close>
  checks inside \<open>lockPiece\<close> and \<open>hardDrop\<close> is the board before the lock. In the state
  \<open>stackedT\<close> a T piece rests at its spawn position on a row of locked cells. The lock
  writes it into rows 19 and 20; the next piece, a T again, is spawned at row 19,
  column 3, where its cells collide with the board the lock has produced (by
  \<open>checkCollision\<close> and by the specified predicate \<open>collides\<close>), and \<open>gameOver\<close> stays
  false, after \<open>lockPiece\<close> and after \<open>hardDrop\<close> alike. The game ends one piece later: the
  lock of the overlapping piece spawns the following one with the board of the first
  lock in view.
\<close>

theorem spawn_after_lock_no_gameOver:
  "onGround stackedT
   \<and> checkCollision (board stackedT) (shape (pieceOf KT)) \<lparr>row = 19, col = 3\<rparr> = Inr False
   \<and> map_sum id gameOver (lockPiece noRandom stackedT) = Inr False
   \<and> map_sum id currentPiece (lockPiece noRandom stackedT) = Inr (Some (pieceOf KT))
   \<and> map_sum id position (lockPiece noRandom stackedT) = Inr \<lparr>row = 19, col = 3\<rparr>
   \<and> map_sum id (\<lambda>s'. checkCollision (board s') (shape (pieceOf KT)) \<lparr>row = 19, col = 3\<rparr>)
         (lockPiece noRandom stackedT) = Inr (Inr True)
   \<and> map_sum id (\<lambda>s'. collides (board s') (shape (pieceOf KT)) \<lparr>row = 19, col = 3\<rparr>)
         (lockPiece noRandom stackedT) = Inr True
   \<and> map_option (map_sum id gameOver) (hardDrop noRandom stackedT) = Some (Inr False)
   \<and> map_option (map_sum id position) (hardDrop noRandom stackedT) = Some (Inr \<lparr>row = 19, col = 3\<rparr>)
   \<and> map_option (map_sum id (\<lambda>s'. collides (board s') (shape (pieceOf KT)) \<lparr>row = 19, col = 3\<rparr>))
         (hardDrop noRandom stackedT) = Some (Inr True)
   \<and> map_sum id (\<lambda>s'. map_sum id gameOver (lockPiece noRandom s')) (lockPiece noRandom stackedT)
       = Inr (Inr True)"
  by code_simp

subsection \<open>Clockwise then counter-clockwise\<close>

text \<open>
  C2 asks that a J, L, S, T or Z piece at an unobstructed position has its shape matrix,
  position and rotation state restored by a clockwise rotation followed by a
  counter-clockwise one. The code does not do that: the number of quarter turns that
  \<open>rotatePiece\<close> applies for the counter-clockwise direction is 1 in every rotation state,
  the same as for the clockwise direction. On the empty board a freshly spawned T piece
  is accepted at the identity kick both times, in either order of the two directions, and
  after the two calls its position and rotation state are restored but its shape matrix
  is the T turned by a half turn.
\<close>

theorem rotatePiece_cw_then_ccw_T:
  "rotatePiece True freshT
     = Inr (freshT\<lparr>currentPiece := Some ((pieceOf KT)\<lparr>shape := map nums [[0,1,0], [0,1,1], [0,1,0]]\<rparr>),
                  rotation := 1\<rparr>)
   \<and> rotatePiece False
         (freshT\<lparr>currentPiece := Some ((pieceOf KT)\<lparr>shape := map nums [[0,1,0], [0,1,1], [0,1,0]]\<rparr>),
                 rotation := 1\<rparr>)
     = Inr (freshT\<lparr>currentPiece := Some ((pieceOf KT)\<lparr>shape := map nums [[0,0,0], [1,1,1], [0,1,0]]\<rparr>)\<rparr>)
   \<and> rotatePiece False freshT
     = Inr (freshT\<lparr>currentPiece := Some ((pieceOf KT)\<lparr>shape := map nums [[0,1,0], [0,1,1], [0,1,0]]\<rparr>),
                  rotation := 3\<rparr>)
   \<and> rotatePiece True
         (freshT\<lparr>currentPiece := Some ((pieceOf KT)\<lparr>shape := map nums [[0,1,0], [0,1,1], [0,1,0]]\<rparr>),
                 rotation := 3\<rparr>)
     = Inr (freshT\<lparr>currentPiece := Some ((pieceOf KT)\<lparr>shape := map nums [[0,0,0], [1,1,1], [0,1,0]]\<rparr>)\<rparr>)
   \<and> shape (pieceOf KT) = map nums [[0,1,0], [1,1,1], [0,0,0]]
   \<and> map nums [[0,0,0], [1,1,1], [0,1,0]] \<noteq> shape (pieceOf KT)
   \<and> rotationsOf False 0 = 1 \<and> rotationsOf False 1 = 1
   \<and> rotationsOf False 2 = 1 \<and> rotationsOf False 3 = 1"
  by code_simp

subsection \<open>The cells a lock writes\<close>

lemma checkCols_False_cols:
  assumes "checkCols b pos r c vs = Inr False" "k < length vs" "truthy (vs ! k)"
  shows "0 \<le> col pos + c + int k \<and> col pos + c + int k < int COLS"
  using assms
proof (induction vs arbitrary: c k)
  case Nil
  then show ?case by simp
next
  case (Cons v vs)
  show ?case
  proof (cases k)
    case 0
    with Cons.prems show ?thesis
      by (auto simp: Let_def split: if_splits option.splits)
  next
    case (Suc k')
    have rest: "checkCols b pos r (c + 1) vs = Inr False"
      using Cons.prems(1) by (auto simp: Let_def split: if_splits option.splits)
    from Cons.IH [OF rest, of k'] Cons.prems Suc show ?thesis
      by (simp add: algebra_simps)
  qed
qed

lemma checkRows_False_cols:
  assumes "checkRows b pos r m = Inr False" "i < length m" "j < length (m ! i)" "truthy (m ! i ! j)"
  shows "0 \<le> col pos + int j \<and> col pos + int j < int COLS"
  using assms
proof (induction m arbitrary: r i)
  case Nil
  then show ?case by simp
next
  case (Cons line rest)
  from Cons.prems(1) have line: "checkCols b pos r 0 line = Inr False"
    and tail: "checkRows b pos (r + 1) rest = Inr False"
    by (auto split: sum.splits if_splits)
  show ?case
  proof (cases i)
    case 0
    with checkCols_False_cols [OF line, of j] Cons.prems show ?thesis by simp
  next
    case (Suc i')
    with Cons.IH [OF tail, of i'] Cons.prems show ?thesis by simp
  qed
qed

lemma lockColsWrites_mem:
  assumes "(r', c') \<in> set (lockColsWrites pos r c vs)"
  shows "\<exists>k<length vs. truthy (vs ! k) \<and> r' = row pos + r \<and> c' = col pos + c + int k
            \<and> 0 \<le> r' \<and> r' < int TOTAL_ROWS"
  using assms
proof (induction vs arbitrary: c)
  case Nil
  then show ?case by simp
next
  case (Cons v vs)
  from Cons.prems consider
      (here) "truthy v" "r' = row pos + r" "c' = col pos + c" "0 \<le> r'" "r' < int TOTAL_ROWS"
    | (later) "(r', c') \<in> set (lockColsWrites pos r (c + 1) vs)"
    by (auto simp: Let_def split: if_splits)
  then show ?case
  proof cases
    case here
    then show ?thesis by (intro exI [of _ 0]) simp
  next
    case later
    from Cons.IH [OF later] obtain k where "k < length vs" "truthy (vs ! k)" "r' = row pos + r"
      "c' = col pos + (c + 1) + int k" "0 \<le> r'" "r' < int TOTAL_ROWS" by blast
    then show ?thesis by (intro exI [of _ "Suc k"]) simp
  qed
qed

lemma lockRowsWrites_mem:
  assumes "(r', c') \<in> set (lockRowsWrites pos r m)"
  shows "\<exists>i<length m. \<exists>j<length (m ! i). truthy (m ! i ! j) \<and> r' = row pos + r + int i
            \<and> c' = col pos + int j \<and> 0 \<le> r' \<and> r' < int TOTAL_ROWS"
  using assms
proof (induction m arbitrary: r)
  case Nil
  then show ?case by simp
next
  case (Cons line rest)
  from Cons.prems consider
      (here) "(r', c') \<in> set (lockColsWrites pos r 0 line)"
    | (later) "(r', c') \<in> set (lockRowsWrites pos (r + 1) rest)"
    by auto
  then show ?case
  proof cases
    case here
    from lockColsWrites_mem [OF here] obtain k where "k < length line" "truthy (line ! k)"
      "r' = row pos + r" "c' = col pos + 0 + int k" "0 \<le> r'" "r' < int TOTAL_ROWS" by blast
    then show ?thesis by (intro exI [of _ 0]) auto
  next
    case later
    from Cons.IH [OF later] obtain i j where "i < length rest" "j < length (rest ! i)"
      "truthy (rest ! i ! j)" "r' = row pos + (r + 1) + int i" "c' = col pos + int j"
      "0 \<le> r'" "r' < int TOTAL_ROWS" by blast
    then show ?thesis by (intro exI [of _ "Suc i"]) auto
  qed
qed

lemma lockWrites_in_range:
  assumes "checkCollision b m pos = Inr False" "(r, c) \<in> set (lockWrites m (pos\<lparr>row := g\<rparr>))"
  shows "0 \<le> r \<and> r < int TOTAL_ROWS \<and> 0 \<le> c \<and> c < int COLS"
proof -
  from lockRowsWrites_mem [OF assms(2) [unfolded lockWrites_def]]
  obtain i j where ij: "i < length m" "j < length (m ! i)" "truthy (m ! i ! j)"
    "c = col pos + int j" "0 \<le> r" "r < int TOTAL_ROWS" by auto
  from checkRows_False_cols [OF assms(1) [unfolded checkCollision_def] ij(1-3)] ij
  show ?thesis by simp
qed

lemma writeCell_wf:
  assumes "wf_board nb" "0 \<le> r" "r < int TOTAL_ROWS" "0 \<le> c" "c < int COLS"
  shows "\<exists>nb'. writeCell nb (r, c) v = Inr nb' \<and> wf_board nb'"
proof -
  have len: "nat r < length nb" using assms by (simp add: wf_board_def)
  then have line: "length (nb ! nat r) = COLS"
    using assms(1) by (simp add: wf_board_def list_all_length)
  have "writeCell nb (r, c) v = Inr (nb[nat r := (nb ! nat r)[nat c := v]])"
    using assms line by (simp add: writeCell_def wf_board_rowAt setIndex_def)
  moreover have "wf_board (nb[nat r := (nb ! nat r)[nat c := v]])"
    using assms(1) line len by (auto simp: wf_board_def list_all_length nth_list_update)
  ultimately show ?thesis by blast
qed

lemma writeCells_wf:
  assumes "wf_board nb" "list_all (\<lambda>(r, c). 0 \<le> r \<and> r < int TOTAL_ROWS \<and> 0 \<le> c \<and> c < int COLS) rcs"
  shows "\<exists>nb'. writeCells nb rcs v = Inr nb' \<and> wf_board nb'"
  using assms
proof (induction rcs arbitrary: nb)
  case Nil
  then show ?case by simp
next
  case (Cons rc rcs)
  obtain r c where rc: "rc = (r, c)" by (cases rc)
  with Cons.prems have "0 \<le> r" "r < int TOTAL_ROWS" "0 \<le> c" "c < int COLS" by auto
  from writeCell_wf [OF Cons.prems(1) this] obtain nb1
    where nb1: "writeCell nb (r, c) v = Inr nb1" "wf_board nb1" by blast
  from Cons.IH [OF nb1(2)] Cons.prems(2) obtain nb' where "writeCells nb1 rcs v = Inr nb'" "wf_board nb'"
    by auto
  with nb1 rc show ?case by simp
qed

text \<open>
  C10: when \<open>checkCollision\<close> is false for a shape at a position on a board of the data
  model, every assignment of the locking loop has its column index in \<open>[0, 10)\<close>, at the
  position itself (\<open>lockPiece\<close>) and at every row \<open>g\<close> of the same column (the hard drop,
  which locks at the ghost row); the loop guards the row and the column bound follows
  from the absence of a collision. So no write falls outside a board row: the lock
  succeeds and the board keeps its 40 rows of 10 cells.
\<close>

theorem lock_writes_inside_rows:
  assumes "wf_board b" and "checkCollision b m pos = Inr False"
  shows "list_all (\<lambda>(r, c). 0 \<le> c \<and> c < int COLS) (lockWrites m pos)
         \<and> list_all (\<lambda>(r, c). 0 \<le> c \<and> c < int COLS) (lockWrites m (pos\<lparr>row := g\<rparr>))
         \<and> (\<exists>b'. lockInto b m pos v = Inr b' \<and> wf_board b')
         \<and> (\<exists>b'. lockInto b m (pos\<lparr>row := g\<rparr>) v = Inr b' \<and> wf_board b')"
proof -
  have rng: "list_all (\<lambda>(r, c). 0 \<le> r \<and> r < int TOTAL_ROWS \<and> 0 \<le> c \<and> c < int COLS)
               (lockWrites m (pos\<lparr>row := h\<rparr>))" for h
    unfolding list_all_iff using lockWrites_in_range [OF assms(2)] by auto
  have cols: "list_all (\<lambda>(r, c). 0 \<le> c \<and> c < int COLS) (lockWrites m (pos\<lparr>row := h\<rparr>))" for h
    using rng [of h] unfolding list_all_iff by auto
  have ok: "\<exists>b'. lockInto b m (pos\<lparr>row := h\<rparr>) v = Inr b' \<and> wf_board b'" for h
    using writeCells_wf [OF assms(1) rng [of h]] by (simp add: lockInto_def)
  have same: "pos\<lparr>row := row pos\<rparr> = pos" by simp
  from cols [of "row pos"] cols [of g] ok [of "row pos"] ok [of g] show ?thesis
    unfolding same by blast
qed

theorem lock_writes_inside_rows_witness:
  "wf_board createEmptyBoard
   \<and> checkCollision createEmptyBoard (shape (pieceOf KT)) \<lparr>row = 19, col = 3\<rparr> = Inr False
   \<and> list_all (\<lambda>(r, c). 0 \<le> c \<and> c < int COLS) (lockWrites (shape (pieceOf KT)) \<lparr>row = 19, col = 3\<rparr>)
   \<and> list_all (\<lambda>(r, c). 0 \<le> c \<and> c < int COLS)
        (lockWrites (shape (pieceOf KT)) (\<lparr>row = 19, col = 3\<rparr>\<lparr>row := 38\<rparr>))
   \<and> (\<exists>b'. lockInto createEmptyBoard (shape (pieceOf KT)) \<lparr>row = 19, col = 3\<rparr> (Str (color (pieceOf KT))) = Inr b'
           \<and> wf_board b')"
proof -
  have free: "checkCollision createEmptyBoard (shape (pieceOf KT)) \<lparr>row = 19, col = 3\<rparr> = Inr False"
    by code_simp
  show ?thesis
    using lock_writes_inside_rows [OF wf_createEmptyBoard free, of 38 "Str (color (pieceOf KT))"]
          wf_createEmptyBoard free
    by blast
qed

subsection \<open>Line clearing\<close>

lemma scanCompleted_filter:
  assumes "\<forall>r\<in>set rs. r < length nb"
  shows "scanCompleted nb rs = Inr (filter (\<lambda>r. rowFull (nb ! r)) rs)"
  using assms by (induction rs) (simp_all add: rowAt_def)

lemma completedLines_filter:
  assumes "length nb = TOTAL_ROWS"
  shows "completedLines nb = Inr (filter (\<lambda>r. rowFull (nb ! r)) [0..<length nb])"
  using assms scanCompleted_filter [of "[0..<TOTAL_ROWS]" nb] by (simp add: completedLines_def)

lemma fullIdx_Cons:
  "filter (\<lambda>r. rowFull ((x # xs) ! r)) [0..<length (x # xs)]
     = (if rowFull x then [0] else []) @ map Suc (filter (\<lambda>r. rowFull (xs ! r)) [0..<length xs])"
proof -
  have "[0..<Suc (length xs)] = 0 # [Suc 0..<Suc (length xs)]"
    by (rule upt_conv_Cons) simp
  also have "[Suc 0..<Suc (length xs)] = map Suc [0..<length xs]"
    by (rule map_Suc_upt [symmetric])
  finally have "[0..<length (x # xs)] = 0 # map Suc [0..<length xs]"
    unfolding length_Cons .
  then show ?thesis by (simp add: filter_map comp_def)
qed

lemma removeLine_at_prefix:
  "removeLine (pre @ x # rest) (length pre) = replicate COLS (Num 0) # pre @ rest"
  by (simp add: removeLine_def)

lemma removeLines_prefix:
  "foldl removeLine (pre @ xs) (map (\<lambda>j. length pre + j) (filter (\<lambda>r. rowFull (xs ! r)) [0..<length xs]))
     = replicate (length (filter rowFull xs)) (replicate COLS (Num 0)) @ pre @ filter (\<lambda>line. \<not> rowFull line) xs"
proof (induction xs arbitrary: pre)
  case Nil
  show ?case by simp
next
  case (Cons x xs)
  show ?case
  proof (cases "rowFull x")
    case True
    have "foldl removeLine (pre @ x # xs)
            (map (\<lambda>j. length pre + j) (filter (\<lambda>r. rowFull ((x # xs) ! r)) [0..<length (x # xs)]))
          = foldl removeLine (removeLine (pre @ x # xs) (length pre))
              (map (\<lambda>j. length (replicate COLS (Num 0) # pre) + j) (filter (\<lambda>r. rowFull (xs ! r)) [0..<length xs]))"
      unfolding fullIdx_Cons using True by (simp add: comp_def)
    also have "\<dots> = foldl removeLine ((replicate COLS (Num 0) # pre) @ xs)
              (map (\<lambda>j. length (replicate COLS (Num 0) # pre) + j) (filter (\<lambda>r. rowFull (xs ! r)) [0..<length xs]))"
      by (simp only: removeLine_at_prefix append_Cons)
    also have "\<dots> = replicate (length (filter rowFull xs)) (replicate COLS (Num 0))
                      @ (replicate COLS (Num 0) # pre) @ filter (\<lambda>line. \<not> rowFull line) xs"
      by (rule Cons.IH)
    also have "\<dots> = replicate (length (filter rowFull (x # xs))) (replicate COLS (Num 0))
                      @ pre @ filter (\<lambda>line. \<not> rowFull line) (x # xs)"
      using True by (simp add: replicate_app_Cons_same)
    finally show ?thesis .
  next
    case False
    have "foldl removeLine (pre @ x # xs)
            (map (\<lambda>j. length pre + j) (filter (\<lambda>r. rowFull ((x # xs) ! r)) [0..<length (x # xs)]))
          = foldl removeLine ((pre @ [x]) @ xs)
              (map (\<lambda>j. length (pre @ [x]) + j) (filter (\<lambda>r. rowFull (xs ! r)) [0..<length xs]))"
      unfolding fullIdx_Cons using False by (simp add: comp_def)
    also have "\<dots> = replicate (length (filter rowFull xs)) (replicate COLS (Num 0))
                      @ (pre @ [x]) @ filter (\<lambda>line. \<not> rowFull line) xs"
      by (rule Cons.IH)
    also have "\<dots> = replicate (length (filter rowFull (x # xs))) (replicate COLS (Num 0))
                      @ pre @ filter (\<lambda>line. \<not> rowFull line) (x # xs)"
      using False by simp
    finally show ?thesis .
  qed
qed

lemma removeLines_all_at_once:
  "removeLines nb (filter (\<lambda>r. rowFull (nb ! r)) [0..<length nb])
     = replicate (length (filter rowFull nb)) (replicate COLS (Num 0)) @ filter (\<lambda>line. \<not> rowFull line) nb"
  using removeLines_prefix [of "[]" nb] by (simp add: removeLines_def)

lemma length_completed:
  "length (filter (\<lambda>r. rowFull (nb ! r)) [0..<length nb]) = length (filter rowFull nb)"
proof -
  have "map ((!) nb) (filter (\<lambda>r. rowFull (nb ! r)) [0..<length nb]) = filter rowFull (map ((!) nb) [0..<length nb])"
    by (simp add: filter_map comp_def)
  then have "length (filter (\<lambda>r. rowFull (nb ! r)) [0..<length nb]) = length (filter rowFull (map ((!) nb) [0..<length nb]))"
    by (metis length_map)
  then show ?thesis by (simp add: map_nth)
qed

lemma length_cleared:
  "length (replicate (length (filter rowFull nb)) e @ filter (\<lambda>line. \<not> rowFull line) nb) = length nb"
  using sum_length_filter_compl [of rowFull nb] by simp


lemma writeCell_length:
  assumes "0 \<le> r" "r < int (length nb)"
  shows "\<exists>nb'. writeCell nb (r, c) v = Inr nb' \<and> length nb' = length nb"
  using assms by (simp add: writeCell_def rowAt_def)

lemma writeCells_length:
  assumes "list_all (\<lambda>(r, c). 0 \<le> r \<and> r < int (length nb)) rcs"
  shows "\<exists>nb'. writeCells nb rcs v = Inr nb' \<and> length nb' = length nb"
  using assms
proof (induction rcs arbitrary: nb)
  case Nil
  then show ?case by simp
next
  case (Cons rc rcs)
  obtain r c where rc: "rc = (r, c)" by (cases rc)
  with Cons.prems have "0 \<le> r" "r < int (length nb)" by auto
  from writeCell_length [OF this] obtain nb1
    where nb1: "writeCell nb (r, c) v = Inr nb1" "length nb1 = length nb" by blast
  from Cons.prems nb1(2) have "list_all (\<lambda>(r, c). 0 \<le> r \<and> r < int (length nb1)) rcs" by simp
  from Cons.IH [OF this] obtain nb' where "writeCells nb1 rcs v = Inr nb'" "length nb' = length nb1"
    by blast
  with nb1 rc show ?case by simp
qed

lemma lockInto_length:
  assumes "length b = TOTAL_ROWS"
  shows "\<exists>nb. lockInto b m pos v = Inr nb \<and> length nb = TOTAL_ROWS"
proof -
  have "list_all (\<lambda>(r, c). 0 \<le> r \<and> r < int (length b)) (lockWrites m pos)"
    unfolding list_all_iff lockWrites_def using lockRowsWrites_mem [of _ _ pos 0 m] assms by fastforce
  from writeCells_length [OF this] assms show ?thesis by (simp add: lockInto_def)
qed

lemma drawFromBag_fields:
  "board (snd (drawFromBag rnd s)) = board s \<and> score (snd (drawFromBag rnd s)) = score s
   \<and> lines (snd (drawFromBag rnd s)) = lines s \<and> level (snd (drawFromBag rnd s)) = level s"
  by (simp add: drawFromBag_def Let_def split: prod.splits)

lemma getNextPiece_fields:
  "board (snd (getNextPiece rnd s)) = board s \<and> score (snd (getNextPiece rnd s)) = score s
   \<and> lines (snd (getNextPiece rnd s)) = lines s \<and> level (snd (getNextPiece rnd s)) = level s"
  using drawFromBag_fields [of rnd s] by (auto simp: getNextPiece_def Let_def split: prod.splits)

lemma spawnNewPiece_fields:
  assumes "wf_board b"
  shows "\<exists>s'. spawnNewPiece b np s = Inr s' \<and> board s' = board s \<and> score s' = score s
              \<and> lines s' = lines s \<and> level s' = level s"
  by (cases np) (simp_all add: spawnNewPiece_def Let_def checkCollision_collides [OF assms])


lemma filter_not_full_id:
  assumes "filter rowFull nb = []"
  shows "filter (\<lambda>line. \<not> rowFull line) nb = nb"
  using assms by (induction nb) (auto split: if_splits)

lemma lockPiece_effect:
  assumes "wf_board (board s)" "currentPiece s = Some cp"
  shows "\<exists>nb s'. lockInto (board s) (shape cp) (position s) (Str (color cp)) = Inr nb
           \<and> length nb = TOTAL_ROWS
           \<and> lockPiece rnd s = Inr s'
           \<and> board s' = replicate (length (filter rowFull nb)) (replicate COLS (Num 0))
                          @ filter (\<lambda>line. \<not> rowFull line) nb
           \<and> score s' = (if filter rowFull nb \<noteq> []
                          then jsadd (score s) (jsmul (lineScores (length (filter rowFull nb))) (roundInt (int (level s))))
                          else score s)
           \<and> lines s' = lines s + length (filter rowFull nb)
           \<and> level s' = (if filter rowFull nb \<noteq> []
                          then (lines s + length (filter rowFull nb)) div 10 + 1 else level s)"
proof -
  from assms(1) have len: "length (board s) = TOTAL_ROWS" by (simp add: wf_board_def)
  from lockInto_length [OF len] obtain nb
    where nb: "lockInto (board s) (shape cp) (position s) (Str (color cp)) = Inr nb"
      and nblen: "length nb = TOTAL_ROWS" by blast
  define completed where "completed = filter (\<lambda>r. rowFull (nb ! r)) [0..<length nb]"
  have scan: "completedLines nb = Inr completed"
    unfolding completed_def by (rule completedLines_filter [OF nblen])
  have k: "length completed = length (filter rowFull nb)"
    unfolding completed_def by (rule length_completed)
  have cleared: "removeLines nb completed
          = replicate (length (filter rowFull nb)) (replicate COLS (Num 0)) @ filter (\<lambda>line. \<not> rowFull line) nb"
    unfolding completed_def by (rule removeLines_all_at_once)
  define s1 where "s1 = (if length completed > 0
                         then s\<lparr>board := removeLines nb completed,
                                score := jsadd (score s) (jsmul (lineScores (length completed)) (roundInt (int (level s)))),
                                lines := lines s + length completed,
                                level := (lines s + length completed) div 10 + 1\<rparr>
                         else s\<lparr>board := nb\<rparr>)"
  have b1: "board s1 = replicate (length (filter rowFull nb)) (replicate COLS (Num 0))
                          @ filter (\<lambda>line. \<not> rowFull line) nb"
  proof (cases "length completed > 0")
    case True
    then show ?thesis by (simp add: s1_def cleared)
  next
    case False
    with k have "filter rowFull nb = []" by simp
    with False show ?thesis by (simp add: s1_def filter_not_full_id)
  qed
  have sc1: "score s1 = (if filter rowFull nb \<noteq> []
                          then jsadd (score s) (jsmul (lineScores (length (filter rowFull nb))) (roundInt (int (level s))))
                          else score s)"
    using k by (auto simp: s1_def)
  have li1: "lines s1 = lines s + length (filter rowFull nb)"
    using k by (auto simp: s1_def)
  have le1: "level s1 = (if filter rowFull nb \<noteq> []
                          then (lines s + length (filter rowFull nb)) div 10 + 1 else level s)"
    using k by (auto simp: s1_def)
  obtain np s2 where nxt: "getNextPiece rnd s1 = (np, s2)" by (cases "getNextPiece rnd s1")
  with getNextPiece_fields [of rnd s1]
  have f2: "board s2 = board s1" "score s2 = score s1" "lines s2 = lines s1" "level s2 = level s1"
    by simp_all
  from spawnNewPiece_fields [OF assms(1), of np s2] obtain s'
    where spawn: "spawnNewPiece (board s) np s2 = Inr s'"
      and f3: "board s' = board s2" "score s' = score s2" "lines s' = lines s2" "level s' = level s2"
    by blast
  have "lockPiece rnd s = (case getNextPiece rnd s1 of (np, s2) \<Rightarrow> spawnNewPiece (board s) np s2)"
    unfolding lockPiece_def s1_def using assms(2) nb scan by (simp add: Let_def)
  with nxt spawn have "lockPiece rnd s = Inr s'" by simp
  with nb nblen b1 sc1 li1 le1 f2 f3 show ?thesis by (intro exI [of _ nb] exI [of _ s']) simp
qed


lemma collides_below_floor:
  assumes "shapeCells m \<noteq> []" "int TOTAL_ROWS \<le> g + 1"
  shows "collides b m (pos\<lparr>row := g + 1\<rparr>)"
proof -
  from assms(1) obtain i j where "(i, j) \<in> set (shapeCells m)"
    by (cases "shapeCells m") auto
  moreover have "cellCollides b (g + 1 + int i) (col pos + int j)"
    using assms(2) by (simp add: cellCollides_def)
  ultimately show ?thesis
    unfolding collides_def list_ex_iff by (intro bexI [of _ "(i, j)"]) simp_all
qed

lemma ghostLoop_returns:
  assumes "wf_board b" "shapeCells m \<noteq> []"
  shows "\<exists>g'. ghostLoop b m pos g = Some (Inr g')"
proof (induction "nat (int TOTAL_ROWS - g)" arbitrary: g)
  case 0
  then have "int TOTAL_ROWS \<le> g + 1" by simp
  from collides_below_floor [OF assms(2) this]
  have "checkCollision b m (pos\<lparr>row := g + 1\<rparr>) = Inr True"
    by (simp add: checkCollision_collides [OF assms(1)])
  then show ?case by (subst ghostLoop.simps) simp
next
  case (Suc n)
  show ?case
  proof (cases "collides b m (pos\<lparr>row := g + 1\<rparr>)")
    case True
    then have "checkCollision b m (pos\<lparr>row := g + 1\<rparr>) = Inr True"
      by (simp add: checkCollision_collides [OF assms(1)])
    then show ?thesis by (subst ghostLoop.simps) simp
  next
    case False
    then have free: "checkCollision b m (pos\<lparr>row := g + 1\<rparr>) = Inr False"
      by (simp add: checkCollision_collides [OF assms(1)])
    from Suc.hyps(2) have "n = nat (int TOTAL_ROWS - (g + 1))" by simp
    from Suc.hyps(1) [OF this] obtain g' where "ghostLoop b m pos (g + 1) = Some (Inr g')" by blast
    with free show ?thesis by (subst ghostLoop.simps) simp
  qed
qed

lemma hardDrop_effect:
  assumes "wf_board (board s)" "currentPiece s = Some cp" "\<not> gameOver s" "\<not> paused s"
    and "getGhostPosition (board s) (shape cp) (position s) = Some (Inr g)"
  shows "\<exists>nb s'. lockInto (board s) (shape cp) ((position s)\<lparr>row := g\<rparr>) (Str (color cp)) = Inr nb
           \<and> length nb = TOTAL_ROWS
           \<and> hardDrop rnd s = Some (Inr s')
           \<and> board s' = replicate (length (filter rowFull nb)) (replicate COLS (Num 0))
                          @ filter (\<lambda>line. \<not> rowFull line) nb"
proof -
  from assms(1) have len: "length (board s) = TOTAL_ROWS" by (simp add: wf_board_def)
  from lockInto_length [OF len] obtain nb
    where nb: "lockInto (board s) (shape cp) ((position s)\<lparr>row := g\<rparr>) (Str (color cp)) = Inr nb"
      and nblen: "length nb = TOTAL_ROWS" by blast
  define completed where "completed = filter (\<lambda>r. rowFull (nb ! r)) [0..<length nb]"
  have scan: "completedLines nb = Inr completed"
    unfolding completed_def by (rule completedLines_filter [OF nblen])
  have k: "length completed = length (filter rowFull nb)"
    unfolding completed_def by (rule length_completed)
  have cleared: "removeLines nb completed
          = replicate (length (filter rowFull nb)) (replicate COLS (Num 0)) @ filter (\<lambda>line. \<not> rowFull line) nb"
    unfolding completed_def by (rule removeLines_all_at_once)
  define s1 where "s1 = (if length completed > 0
                         then s\<lparr>score := jsadd
                                   (jsadd (score s) (jsmul (lineScores (length completed)) (roundInt (int (level s)))))
                                   (jsmul (roundInt (g - row (position s))) (Fin SCORE_HARD_DROP)),
                                lines := lines s + length completed,
                                level := (lines s + length completed) div 10 + 1\<rparr>
                         else s\<lparr>score := jsadd (score s) (jsmul (roundInt (g - row (position s))) (Fin SCORE_HARD_DROP))\<rparr>)"
  define s2 where "s2 = s1\<lparr>board := (if length completed > 0 then removeLines nb completed else nb)\<rparr>"
  have b2: "board s2 = replicate (length (filter rowFull nb)) (replicate COLS (Num 0))
                          @ filter (\<lambda>line. \<not> rowFull line) nb"
  proof (cases "length completed > 0")
    case True
    then show ?thesis by (simp add: s2_def cleared)
  next
    case False
    with k have "filter rowFull nb = []" by simp
    with False show ?thesis by (simp add: s2_def filter_not_full_id)
  qed
  obtain np s3 where nxt: "getNextPiece rnd s2 = (np, s3)" by (cases "getNextPiece rnd s2")
  with getNextPiece_fields [of rnd s2] have f3: "board s3 = board s2" by simp
  from spawnNewPiece_fields [OF assms(1), of np s3] obtain s'
    where spawn: "spawnNewPiece (board s) np s3 = Inr s'" and f4: "board s' = board s3"
    by blast
  have "hardDrop rnd s = Some (case getNextPiece rnd s2 of (np, s3) \<Rightarrow> spawnNewPiece (board s) np s3)"
    unfolding hardDrop_def s2_def s1_def using assms(2-5) nb scan by (simp add: Let_def)
  with nxt spawn have "hardDrop rnd s = Some (Inr s')" by simp
  with nb nblen b2 f3 f4 show ?thesis by (intro exI [of _ nb] exI [of _ s']) simp
qed

text \<open>
  C5: when a piece locks, by \<open>lockPiece\<close> or by \<open>hardDrop\<close>, and \<open>k\<close> rows of the board with
  the piece written into it are full, the resulting board is \<open>k\<close> empty rows followed by
  the rows that are not full, in their order, and it has 40 rows; the loop that splices
  the full rows out one at a time and puts an empty row on top each time computes just
  that, on every board of 40 rows.
\<close>

theorem line_clear_all_at_once:
  assumes "wf_board (board s)" and "currentPiece s = Some cp"
  shows "(\<exists>nb s'. lockInto (board s) (shape cp) (position s) (Str (color cp)) = Inr nb
            \<and> lockPiece rnd s = Inr s'
            \<and> board s' = replicate (length (filter rowFull nb)) (replicate COLS (Num 0))
                           @ filter (\<lambda>line. \<not> rowFull line) nb
            \<and> length (board s') = TOTAL_ROWS)
       \<and> (\<not> gameOver s \<and> \<not> paused s \<and> shapeCells (shape cp) \<noteq> [] \<longrightarrow>
            (\<exists>g nb s'. getGhostPosition (board s) (shape cp) (position s) = Some (Inr g)
               \<and> lockInto (board s) (shape cp) ((position s)\<lparr>row := g\<rparr>) (Str (color cp)) = Inr nb
               \<and> hardDrop rnd s = Some (Inr s')
               \<and> board s' = replicate (length (filter rowFull nb)) (replicate COLS (Num 0))
                              @ filter (\<lambda>line. \<not> rowFull line) nb
               \<and> length (board s') = TOTAL_ROWS))
       \<and> (\<forall>nb. length nb = TOTAL_ROWS \<longrightarrow>
            (\<exists>completed. completedLines nb = Inr completed
               \<and> length completed = length (filter rowFull nb)
               \<and> removeLines nb completed
                    = replicate (length (filter rowFull nb)) (replicate COLS (Num 0))
                      @ filter (\<lambda>line. \<not> rowFull line) nb))"
proof (intro conjI allI impI)
  from lockPiece_effect [OF assms, of rnd] obtain nb s'
    where "lockInto (board s) (shape cp) (position s) (Str (color cp)) = Inr nb"
      and "length nb = TOTAL_ROWS" and "lockPiece rnd s = Inr s'"
      and "board s' = replicate (length (filter rowFull nb)) (replicate COLS (Num 0))
                        @ filter (\<lambda>line. \<not> rowFull line) nb"
    by blast
  then show "\<exists>nb s'. lockInto (board s) (shape cp) (position s) (Str (color cp)) = Inr nb
            \<and> lockPiece rnd s = Inr s'
            \<and> board s' = replicate (length (filter rowFull nb)) (replicate COLS (Num 0))
                           @ filter (\<lambda>line. \<not> rowFull line) nb
            \<and> length (board s') = TOTAL_ROWS"
    using length_cleared [of nb] by auto
next
  assume active: "\<not> gameOver s \<and> \<not> paused s \<and> shapeCells (shape cp) \<noteq> []"
  from ghostLoop_returns [OF assms(1), of "shape cp" "position s" "row (position s)"] active
  obtain g where g: "getGhostPosition (board s) (shape cp) (position s) = Some (Inr g)"
    by (auto simp: getGhostPosition_def)
  from hardDrop_effect [OF assms, of g rnd] active g obtain nb s'
    where "lockInto (board s) (shape cp) ((position s)\<lparr>row := g\<rparr>) (Str (color cp)) = Inr nb"
      and "length nb = TOTAL_ROWS" and "hardDrop rnd s = Some (Inr s')"
      and "board s' = replicate (length (filter rowFull nb)) (replicate COLS (Num 0))
                        @ filter (\<lambda>line. \<not> rowFull line) nb"
    by blast
  with g show "\<exists>g nb s'. getGhostPosition (board s) (shape cp) (position s) = Some (Inr g)
               \<and> lockInto (board s) (shape cp) ((position s)\<lparr>row := g\<rparr>) (Str (color cp)) = Inr nb
               \<and> hardDrop rnd s = Some (Inr s')
               \<and> board s' = replicate (length (filter rowFull nb)) (replicate COLS (Num 0))
                              @ filter (\<lambda>line. \<not> rowFull line) nb
               \<and> length (board s') = TOTAL_ROWS"
    using length_cleared [of nb] by auto
next
  fix nb :: board
  assume len: "length nb = TOTAL_ROWS"
  show "\<exists>completed. completedLines nb = Inr completed
               \<and> length completed = length (filter rowFull nb)
               \<and> removeLines nb completed
                    = replicate (length (filter rowFull nb)) (replicate COLS (Num 0))
                      @ filter (\<lambda>line. \<not> rowFull line) nb"
    using completedLines_filter [OF len] length_completed [of nb] removeLines_all_at_once [of nb]
    by simp
qed

theorem line_clear_all_at_once_witness:
  "wf_board (board twoLines)
   \<and> currentPiece twoLines = Some (pieceOf KO)
   \<and> \<not> gameOver twoLines \<and> \<not> paused twoLines \<and> shapeCells (shape (pieceOf KO)) \<noteq> []
   \<and> (\<exists>nb s'. lockInto (board twoLines) (shape (pieceOf KO)) (position twoLines) (Str (color (pieceOf KO))) = Inr nb
            \<and> lockPiece noRandom twoLines = Inr s'
            \<and> board s' = replicate (length (filter rowFull nb)) (replicate COLS (Num 0))
                           @ filter (\<lambda>line. \<not> rowFull line) nb
            \<and> length (board s') = TOTAL_ROWS)
   \<and> (\<exists>g nb s'. getGhostPosition (board twoLines) (shape (pieceOf KO)) (position twoLines) = Some (Inr g)
            \<and> lockInto (board twoLines) (shape (pieceOf KO)) ((position twoLines)\<lparr>row := g\<rparr>)
                 (Str (color (pieceOf KO))) = Inr nb
            \<and> hardDrop noRandom twoLines = Some (Inr s')
            \<and> board s' = replicate (length (filter rowFull nb)) (replicate COLS (Num 0))
                           @ filter (\<lambda>line. \<not> rowFull line) nb
            \<and> length (board s') = TOTAL_ROWS)
   \<and> map_sum id board (lockPiece noRandom twoLines)
       = Inr (createEmptyBoard[39 := (createEmptyBoard ! 39)[0 := Str ''#00f000'']])"
proof -
  have wf: "wf_board (board twoLines)" by code_simp
  have cp: "currentPiece twoLines = Some (pieceOf KO)" by (simp add: twoLines_def)
  have active: "\<not> gameOver twoLines \<and> \<not> paused twoLines \<and> shapeCells (shape (pieceOf KO)) \<noteq> []"
    by code_simp
  have result: "map_sum id board (lockPiece noRandom twoLines)
       = Inr (createEmptyBoard[39 := (createEmptyBoard ! 39)[0 := Str ''#00f000'']])"
    by code_simp
  show ?thesis
    using line_clear_all_at_once [OF wf cp, of noRandom] wf cp active result by blast
qed

subsection \<open>The score of a line clear\<close>

text \<open>
  C6 states the score rule and two instances of it; the second instance, 3200 points for
  four lines at level 3, is not what the rule gives. At level 3, with 20 lines cleared
  before, a lock that clears four lines takes the score from 0 to 2400 and the line
  count to 24.
\<close>

theorem tetris_at_level_3_adds_2400:
  "level fourLines = 3 \<and> score fourLines = Fin 0 \<and> lines fourLines = 20
   \<and> map_sum id lines (lockPiece noRandom fourLines) = Inr 24
   \<and> map_sum id score (lockPiece noRandom fourLines) = Inr (Fin 2400)
   \<and> map_sum id score (lockPiece noRandom fourLines) \<noteq> Inr (Fin (0 + 3200))"
  by code_simp

lemma roundInt_exact:
  "\<bar>x\<bar> \<le> 2 ^ 53 \<Longrightarrow> roundInt x = Fin x"
  by (simp add: roundInt_def)

text \<open>Beyond \<open>2^53\<close> a sum is rounded: \<open>2^55 + 100\<close> is not a double, \<open>2^55 + 96\<close> is the nearest.\<close>

lemma jsadd_rounds:
  "jsadd (Fin (2 ^ 55)) (Fin 100) = Fin (2 ^ 55 + 96)"
  by code_simp

text \<open>
  C6, amended: a lock by \<open>lockPiece\<close> that clears \<open>k\<close> lines at once, \<open>k\<close> from 1 to 4, adds
  the base points of \<open>k\<close> (100, 300, 500, 800) times the level the game had before the
  lock; one line at level 1 adds exactly 100 points, and four lines at level 3 add exactly
  2400 points. The score is a double: the sum is the exact one as long as the score and
  the points stay within \<open>2^53\<close>, the range in which every integer is a double, which is
  the bound on the score \<open>sc\<close> and the level here.
\<close>

theorem lockPiece_line_score:
  assumes "wf_board (board s)" and "currentPiece s = Some cp"
    and "lockInto (board s) (shape cp) (position s) (Str (color cp)) = Inr nb"
    and "completedLines nb = Inr completed"
    and "1 \<le> length completed" and "length completed \<le> 4"
    and "score s = Fin sc"
    and "\<bar>sc\<bar> + 800 * int (level s) \<le> 2 ^ 53"
  shows "\<exists>s'. lockPiece rnd s = Inr s'
          \<and> score s' = Fin (sc + (if length completed = 1 then 100
                                   else if length completed = 2 then 300
                                   else if length completed = 3 then 500 else 800) * int (level s))
          \<and> (length completed = 1 \<and> level s = 1 \<longrightarrow> score s' = Fin (sc + 100))
          \<and> (length completed = 4 \<and> level s = 3 \<longrightarrow> score s' = Fin (sc + 2400))"
proof -
  from lockPiece_effect [OF assms(1,2), of rnd] assms(3) obtain s'
    where len: "length nb = TOTAL_ROWS" and locked: "lockPiece rnd s = Inr s'"
      and sc: "score s' = (if filter rowFull nb \<noteq> []
                          then jsadd (score s) (jsmul (lineScores (length (filter rowFull nb))) (roundInt (int (level s))))
                          else score s)"
    by auto
  from completedLines_filter [OF len] assms(4)
  have "completed = filter (\<lambda>r. rowFull (nb ! r)) [0..<length nb]" by simp
  then have k: "length (filter rowFull nb) = length completed"
    using length_completed [of nb] by simp
  define base :: int where
    "base = (if length completed = 1 then 100 else if length completed = 2 then 300
             else if length completed = 3 then 500 else 800)"
  from assms(5,6) consider "length completed = 1" | "length completed = 2"
    | "length completed = 3" | "length completed = 4" by arith
  then have ls: "lineScores (length completed) = Fin base"
    by cases (auto simp: base_def lineScores_def SCORE_SINGLE_def SCORE_DOUBLE_def SCORE_TRIPLE_def
        SCORE_TETRIS_def)
  have b0: "0 \<le> base" and b800: "base \<le> 800" by (auto simp: base_def)
  have lv0: "0 \<le> int (level s)" by simp
  from b800 lv0 have prod_le: "base * int (level s) \<le> 800 * int (level s)"
    by (rule mult_right_mono)
  from b0 lv0 have prod_ge: "0 \<le> base * int (level s)" by (rule mult_nonneg_nonneg)
  from assms(8) have lvl: "\<bar>int (level s)\<bar> \<le> 2 ^ 53" by simp
  from assms(8) prod_le prod_ge have p: "\<bar>base * int (level s)\<bar> \<le> 2 ^ 53" by simp
  from assms(8) prod_le prod_ge have t: "\<bar>sc + base * int (level s)\<bar> \<le> 2 ^ 53" by simp
  from assms(5) k have ne: "filter rowFull nb \<noteq> []" by auto
  from sc ne k ls assms(7)
  have "score s' = jsadd (Fin sc) (jsmul (Fin base) (roundInt (int (level s))))" by simp
  also have "\<dots> = jsadd (Fin sc) (roundInt (base * int (level s)))"
    by (simp add: roundInt_exact [OF lvl])
  also have "\<dots> = roundInt (sc + base * int (level s))"
    by (simp add: roundInt_exact [OF p])
  also have "\<dots> = Fin (sc + base * int (level s))"
    by (rule roundInt_exact [OF t])
  finally have "score s' = Fin (sc + base * int (level s))" .
  with locked show ?thesis by (auto simp: base_def)
qed

theorem lockPiece_line_score_witness:
  "wf_board (board oneLine) \<and> currentPiece oneLine = Some (pieceOf KO)
   \<and> lockInto (board oneLine) (shape (pieceOf KO)) (position oneLine) (Str (color (pieceOf KO)))
       = Inr oneLineLocked
   \<and> completedLines oneLineLocked = Inr [39]
   \<and> score oneLine = Fin 0 \<and> level oneLine = 1
   \<and> \<bar>0\<bar> + 800 * int (level oneLine) \<le> 2 ^ 53
   \<and> (\<exists>s'. lockPiece noRandom oneLine = Inr s' \<and> score s' = Fin (0 + 100))
   \<and> wf_board (board fourLines)
   \<and> currentPiece fourLines = Some ((pieceOf KI)\<lparr>shape := rotateMatrix (shape (pieceOf KI))\<rparr>)
   \<and> lockInto (board fourLines) (rotateMatrix (shape (pieceOf KI))) (position fourLines)
        (Str (color (pieceOf KI))) = Inr fourLinesLocked
   \<and> completedLines fourLinesLocked = Inr [36, 37, 38, 39]
   \<and> score fourLines = Fin 0 \<and> level fourLines = 3
   \<and> \<bar>0\<bar> + 800 * int (level fourLines) \<le> 2 ^ 53
   \<and> (\<exists>s'. lockPiece noRandom fourLines = Inr s' \<and> score s' = Fin (0 + 2400))"
proof -
  have wf1: "wf_board (board oneLine)" by code_simp
  have cp1: "currentPiece oneLine = Some (pieceOf KO)" by (simp add: oneLine_def)
  have li1: "lockInto (board oneLine) (shape (pieceOf KO)) (position oneLine) (Str (color (pieceOf KO)))
       = Inr oneLineLocked" by code_simp
  have cl1: "completedLines oneLineLocked = Inr [39]" by code_simp
  have sc1: "score oneLine = Fin 0" by (simp add: oneLine_def initialState_def)
  have lv1: "level oneLine = 1" by (simp add: oneLine_def initialState_def)
  have bd1: "\<bar>0\<bar> + 800 * int (level oneLine) \<le> 2 ^ 53" by (simp add: lv1)
  have wf4: "wf_board (board fourLines)" by code_simp
  have cp4: "currentPiece fourLines = Some ((pieceOf KI)\<lparr>shape := rotateMatrix (shape (pieceOf KI))\<rparr>)"
    by (simp add: fourLines_def)
  have li4: "lockInto (board fourLines) (shape ((pieceOf KI)\<lparr>shape := rotateMatrix (shape (pieceOf KI))\<rparr>))
        (position fourLines) (Str (color ((pieceOf KI)\<lparr>shape := rotateMatrix (shape (pieceOf KI))\<rparr>)))
        = Inr fourLinesLocked" by code_simp
  have cl4: "completedLines fourLinesLocked = Inr [36, 37, 38, 39]" by code_simp
  have sc4: "score fourLines = Fin 0" by (simp add: fourLines_def initialState_def)
  have lv4: "level fourLines = 3" by (simp add: fourLines_def initialState_def)
  have bd4: "\<bar>0\<bar> + 800 * int (level fourLines) \<le> 2 ^ 53" by (simp add: lv4)
  from lockPiece_line_score [OF wf1 cp1 li1 cl1 _ _ sc1 bd1, of noRandom] lv1
  have r1: "\<exists>s'. lockPiece noRandom oneLine = Inr s' \<and> score s' = Fin (0 + 100)" by auto
  from lockPiece_line_score [OF wf4 cp4 li4 cl4 _ _ sc4 bd4, of noRandom] lv4
  have r4: "\<exists>s'. lockPiece noRandom fourLines = Inr s' \<and> score s' = Fin (0 + 2400)" by auto
  from li4 have li4': "lockInto (board fourLines) (rotateMatrix (shape (pieceOf KI))) (position fourLines)
        (Str (color (pieceOf KI))) = Inr fourLinesLocked" by simp
  show ?thesis
    using wf1 cp1 li1 cl1 sc1 lv1 bd1 r1 wf4 cp4 li4' cl4 sc4 lv4 bd4 r4 by blast
qed

subsection \<open>The 7-bag randomizer\<close>

lemma randomIndex_le: "randomIndex rnd n i \<le> i"
proof -
  have "frac (rnd n) * real (i + 1) < real (i + 1)"
    using frac_lt_1 [of "rnd n"] by (simp add: mult_less_cancel_right1 del: of_nat_add)
  then have "\<lfloor>frac (rnd n) * real (i + 1)\<rfloor> < int (i + 1)"
    by (simp add: floor_less_iff del: of_nat_add)
  then show ?thesis by (simp add: randomIndex_def)
qed

lemma shuffle_mset:
  assumes "i < length pieces"
  shows "mset (fst (shuffle rnd n i pieces)) = mset pieces"
  using assms
proof (induction i arbitrary: n pieces)
  case 0
  show ?case by simp
next
  case (Suc i)
  let ?j = "randomIndex rnd n (Suc i)"
  let ?swapped = "pieces[Suc i := pieces ! ?j, ?j := pieces ! Suc i]"
  have j: "?j < length pieces"
    using randomIndex_le [of rnd n "Suc i"] Suc.prems by simp
  have "mset ?swapped = mset pieces"
    by (rule mset_swap [OF j Suc.prems])
  moreover have "mset (fst (shuffle rnd (n + 1) i ?swapped)) = mset ?swapped"
    by (rule Suc.IH) (use Suc.prems in simp)
  ultimately show ?case by (simp add: Let_def)
qed

lemma generateBag_mset: "mset (fst (generateBag rnd n)) = mset pieceKeys"
  unfolding generateBag_def by (rule shuffle_mset) (simp add: pieceKeys_def)

lemma mset_wholeBag:
  assumes "mset xs = mset pieceKeys"
  shows "wholeBag xs"
proof -
  have len: "length xs = length pieceKeys"
    using assms by (metis size_mset)
  have "count_list xs k = count_list pieceKeys k" for k
    using assms by (metis count_mset)
  moreover have "list_all (\<lambda>k. count_list pieceKeys k = 1) pieceKeys"
    by (simp add: pieceKeys_def)
  ultimately show ?thesis using len by (simp add: wholeBag_def)
qed

lemma generateBag_wholeBag: "wholeBag (fst (generateBag rnd n))"
  by (rule mset_wholeBag [OF generateBag_mset])


lemma wholeBag_length: "wholeBag xs \<Longrightarrow> length xs = 7"
  by (simp add: wholeBag_def pieceKeys_def)

lemma drawFromBag_long:
  assumes "8 \<le> length (bag s)"
  shows "drawFromBag rnd s = (Some (hd (bag s)), s\<lparr>bag := tl (bag s)\<rparr>)"
  using assms by (cases "bag s") (simp_all add: drawFromBag_def Let_def)

lemma draws_long:
  assumes "k + 7 \<le> length (bag s)"
  shows "draws rnd k s = (map Some (take k (bag s)), s\<lparr>bag := drop k (bag s)\<rparr>)"
  using assms
proof (induction k arbitrary: s)
  case 0
  show ?case by simp
next
  case (Suc k)
  from Suc.prems obtain x xs where bag: "bag s = x # xs" by (cases "bag s") auto
  have first: "drawFromBag rnd s = (Some x, s\<lparr>bag := xs\<rparr>)"
    using drawFromBag_long [of s rnd] Suc.prems bag by simp
  have "draws rnd k (s\<lparr>bag := xs\<rparr>)
          = (map Some (take k xs), s\<lparr>bag := xs\<rparr>\<lparr>bag := drop k xs\<rparr>)"
    using Suc.IH [of "s\<lparr>bag := xs\<rparr>"] Suc.prems bag by simp
  with first bag show ?case by simp
qed

lemma drawFromBag_refill:
  assumes "bag s = x # xs" "length xs < 7"
  shows "drawFromBag rnd s
           = (Some x, s\<lparr>bag := xs @ fst (generateBag rnd (randomCalls s)),
                        randomCalls := snd (generateBag rnd (randomCalls s))\<rparr>)"
  using assms by (simp add: drawFromBag_def Let_def split: prod.splits)

lemma draws_single_bag:
  assumes "wholeBag (bag s)"
  shows "draws rnd 7 s
           = (map Some (bag s), s\<lparr>bag := fst (generateBag rnd (randomCalls s)),
                                   randomCalls := snd (generateBag rnd (randomCalls s))\<rparr>)"
proof -
  let ?fresh = "fst (generateBag rnd (randomCalls s))"
  let ?n = "snd (generateBag rnd (randomCalls s))"
  from wholeBag_length [OF assms] obtain x xs where bag: "bag s = x # xs" and xs: "length xs = 6"
    by (cases "bag s") auto
  have fresh: "length ?fresh = 7"
    by (rule wholeBag_length [OF generateBag_wholeBag])
  let ?s1 = "s\<lparr>bag := xs @ ?fresh, randomCalls := ?n\<rparr>"
  have first: "drawFromBag rnd s = (Some x, ?s1)"
    using drawFromBag_refill [OF bag, of rnd] xs by simp
  have "draws rnd 6 ?s1 = (map Some (take 6 (bag ?s1)), ?s1\<lparr>bag := drop 6 (bag ?s1)\<rparr>)"
    by (rule draws_long) (simp add: xs fresh)
  then have rest: "draws rnd 6 ?s1 = (map Some xs, s\<lparr>bag := ?fresh, randomCalls := ?n\<rparr>)"
    using xs by simp
  have "draws rnd 7 s = (let (d, s1) = drawFromBag rnd s; (ds, s2) = draws rnd 6 s1 in (d # ds, s2))"
    by (simp add: eval_nat_numeral)
  with first rest bag show ?thesis by simp
qed

lemma draws_double_bag:
  assumes "wholeBag (take 7 (bag s))" "wholeBag (drop 7 (bag s))"
  shows "draws rnd 7 s = (map Some (take 7 (bag s)), s\<lparr>bag := drop 7 (bag s)\<rparr>)"
proof -
  from wholeBag_length [OF assms(2)] have "7 + 7 \<le> length (bag s)" by simp
  then show ?thesis by (rule draws_long)
qed

lemma eachTimes_one:
  assumes "wholeBag xs"
  shows "eachTimes 1 (map Some xs)"
proof -
  have "count_list (map Some xs) (Some k) = count_list xs k" for k
    by (rule count_list_map_conv) simp
  with assms show ?thesis by (simp add: eachTimes_def wholeBag_def)
qed

lemma draws_boundary:
  assumes "bagBoundary s"
  shows "eachTimes 1 (fst (draws rnd 7 s)) \<and> bagBoundary (snd (draws rnd 7 s))"
proof (cases "wholeBag (bag s)")
  case True
  from draws_single_bag [OF True, of rnd] eachTimes_one [OF True] generateBag_wholeBag
  show ?thesis by (simp add: bagBoundary_def)
next
  case False
  with assms have two: "wholeBag (take 7 (bag s))" "wholeBag (drop 7 (bag s))"
    by (auto simp: bagBoundary_def)
  from draws_double_bag [OF two, of rnd] eachTimes_one [OF two(1)] two(2)
  show ?thesis by (simp add: bagBoundary_def)
qed

lemma draws_add:
  "draws rnd (a + b) s
     = (fst (draws rnd a s) @ fst (draws rnd b (snd (draws rnd a s))),
        snd (draws rnd b (snd (draws rnd a s))))"
  by (induction a arbitrary: s) (simp_all add: Let_def split: prod.splits)

lemma eachTimes_append:
  assumes "eachTimes a xs" "eachTimes b ys"
  shows "eachTimes (a + b) (xs @ ys)"
  using assms by (simp add: eachTimes_def list_all_iff algebra_simps)

lemma initialBag_boundary: "bagBoundary (initialBag rnd s)"
proof -
  let ?b1 = "fst (generateBag rnd (randomCalls s))"
  let ?n1 = "snd (generateBag rnd (randomCalls s))"
  let ?b2 = "fst (generateBag rnd ?n1)"
  have bag: "bag (initialBag rnd s) = ?b1 @ ?b2"
    by (simp add: initialBag_def Let_def split: prod.splits)
  have l1: "length ?b1 = 7" by (rule wholeBag_length [OF generateBag_wholeBag])
  have "wholeBag (take 7 (?b1 @ ?b2))" "wholeBag (drop 7 (?b1 @ ?b2))"
    using l1 generateBag_wholeBag by simp_all
  with bag show ?thesis by (simp add: bagBoundary_def)
qed

text \<open>
  C7: whatever the random source yields, each bag that \<open>generateBag\<close> produces is a
  permutation of the 7 piece kinds. The initialising effect leaves the bag ref at a bag
  boundary; from a bag boundary, 7 consecutive draws hold every kind exactly once and
  end at a bag boundary again, and 14 consecutive draws hold every kind exactly twice.
\<close>

theorem seven_bag_windows:
  "mset (fst (generateBag rnd n)) = mset pieceKeys
   \<and> bagBoundary (initialBag rnd s0)
   \<and> (bagBoundary s \<longrightarrow>
        eachTimes 1 (fst (draws rnd 7 s))
        \<and> bagBoundary (snd (draws rnd 7 s))
        \<and> eachTimes 2 (fst (draws rnd 14 s)))"
proof -
  have "eachTimes 2 (fst (draws rnd 14 s))" if b: "bagBoundary s"
  proof -
    from draws_boundary [OF b, of rnd]
    have one: "eachTimes 1 (fst (draws rnd 7 s))" and b': "bagBoundary (snd (draws rnd 7 s))"
      by simp_all
    from draws_boundary [OF b', of rnd]
    have two: "eachTimes 1 (fst (draws rnd 7 (snd (draws rnd 7 s))))" by simp
    from eachTimes_append [OF one two]
    have "eachTimes 2 (fst (draws rnd 7 s) @ fst (draws rnd 7 (snd (draws rnd 7 s))))"
      by (simp add: numeral_2_eq_2)
    with draws_add [of rnd 7 7 s] show ?thesis by simp
  qed
  with generateBag_mset initialBag_boundary draws_boundary show ?thesis by blast
qed

theorem seven_bag_windows_witness:
  "bagBoundary (initialBag noRandom initialState)
   \<and> eachTimes 1 (fst (draws noRandom 7 (initialBag noRandom initialState)))
   \<and> bagBoundary (snd (draws noRandom 7 (initialBag noRandom initialState)))
   \<and> eachTimes 2 (fst (draws noRandom 14 (initialBag noRandom initialState)))
   \<and> fst (draws noRandom 7 (initialBag noRandom initialState))
       = map Some [KO, KT, KS, KZ, KJ, KL, KI]"
proof -
  have b: "bagBoundary (initialBag noRandom initialState)" by code_simp
  have v: "fst (draws noRandom 7 (initialBag noRandom initialState))
             = map Some [KO, KT, KS, KZ, KJ, KL, KI]" by code_simp
  show ?thesis
    using seven_bag_windows [of noRandom 0 initialState "initialBag noRandom initialState"] b v
    by blast
qed

subsection \<open>Lockdown\<close>

lemma onGround_frame:
  "onGround (s\<lparr>frameCount := f, lockdownTimer := t\<rparr>) = onGround s"
  "onGround (s\<lparr>frameCount := f\<rparr>) = onGround s"
  by (simp_all add: onGround_def split: option.splits)

lemma gravity_grounded:
  assumes "onGround s"
  shows "\<exists>f. gravity s = Inr (s\<lparr>frameCount := f\<rparr>)"
proof -
  from assms obtain cp where cp: "currentPiece s = Some cp" and act: "\<not> gameOver s" "\<not> paused s"
    and hit: "checkCollision (board s) (shape cp) \<lparr>row = row (position s) + 1, col = col (position s)\<rparr> = Inr True"
    by (auto simp: onGround_def split: option.splits)
  have stay: "movePiece 1 0 (s\<lparr>frameCount := 0\<rparr>) = Inr (False, s\<lparr>frameCount := 0\<rparr>)"
    using cp act hit by (simp add: movePiece_def Let_def)
  show ?thesis
  proof (cases "case speedOf (level s) of None \<Rightarrow> False | Some speed \<Rightarrow> frameCount s \<ge> speed")
    case True
    with stay have "gravity s = Inr (s\<lparr>frameCount := 0\<rparr>)" by (simp add: gravity_def)
    then show ?thesis by blast
  next
    case False
    then have "gravity s = Inr (s\<lparr>frameCount := frameCount s\<rparr>)" by (simp add: gravity_def)
    then show ?thesis by blast
  qed
qed

lemma gameLoop_grounded:
  assumes "onGround s"
  shows "gameLoop rnd s =
           (if shouldLock (lockdownMode s) (lockdownTimer s + 1) (lockdownMoves s)
            then (case lockPiece rnd (s\<lparr>frameCount := frameCount s + 1, lockdownTimer := lockdownTimer s + 1\<rparr>) of
                    Inl e \<Rightarrow> Inl e | Inr s2 \<Rightarrow> Inr (Locked, s2))
            else (case gravity (s\<lparr>frameCount := frameCount s + 1, lockdownTimer := lockdownTimer s + 1\<rparr>) of
                    Inl e \<Rightarrow> Inl e | Inr s2 \<Rightarrow> Inr (Scheduled, s2)))"
  using assms by (auto simp: onGround_def gameLoop_def Let_def split: option.splits)

lemma gameLoop_wait:
  assumes "onGround s" "\<not> shouldLock (lockdownMode s) (lockdownTimer s + 1) (lockdownMoves s)"
  shows "\<exists>f. gameLoop rnd s = Inr (Scheduled, s\<lparr>frameCount := f, lockdownTimer := lockdownTimer s + 1\<rparr>)"
proof -
  let ?s1 = "s\<lparr>frameCount := frameCount s + 1, lockdownTimer := lockdownTimer s + 1\<rparr>"
  have "onGround ?s1" using assms(1) by (simp add: onGround_frame)
  from gravity_grounded [OF this] obtain f where "gravity ?s1 = Inr (?s1\<lparr>frameCount := f\<rparr>)" by blast
  with gameLoop_grounded [OF assms(1), of rnd] assms(2)
  have "gameLoop rnd s = Inr (Scheduled, s\<lparr>frameCount := f, lockdownTimer := lockdownTimer s + 1\<rparr>)"
    by simp
  then show ?thesis by blast
qed

lemma gameLoop_lock:
  assumes "onGround s" "shouldLock (lockdownMode s) (lockdownTimer s + 1) (lockdownMoves s)"
    and "wf_board (board s)"
  shows "\<exists>s'. gameLoop rnd s = Inr (Locked, s')
              \<and> lockPiece rnd (s\<lparr>frameCount := frameCount s + 1, lockdownTimer := lockdownTimer s + 1\<rparr>) = Inr s'"
proof -
  let ?s1 = "s\<lparr>frameCount := frameCount s + 1, lockdownTimer := lockdownTimer s + 1\<rparr>"
  from assms(1) obtain cp where "currentPiece ?s1 = Some cp"
    by (auto simp: onGround_def split: option.splits)
  moreover have "wf_board (board ?s1)" using assms(3) by simp
  ultimately obtain s' where "lockPiece rnd ?s1 = Inr s'"
    using lockPiece_effect [of ?s1 _ rnd] by blast
  with gameLoop_grounded [OF assms(1), of rnd] assms(2) show ?thesis by simp
qed

lemma runTicks_classic_wait:
  assumes "onGround s" "lockdownMode s = Classic" "lockdownTimer s + n < 15"
  shows "\<exists>f. runTicks rnd n s = Inr (Scheduled, s\<lparr>frameCount := f, lockdownTimer := lockdownTimer s + n\<rparr>)"
  using assms
proof (induction n arbitrary: s)
  case 0
  have "s = s\<lparr>frameCount := frameCount s, lockdownTimer := lockdownTimer s + 0\<rparr>" by simp
  then have "runTicks rnd 0 s = Inr (Scheduled, s\<lparr>frameCount := frameCount s, lockdownTimer := lockdownTimer s + 0\<rparr>)"
    by simp
  then show ?case by blast
next
  case (Suc n)
  from Suc.prems have "\<not> shouldLock (lockdownMode s) (lockdownTimer s + 1) (lockdownMoves s)"
    by (simp add: shouldLock_def)
  from gameLoop_wait [OF Suc.prems(1) this, of rnd] obtain f
    where tick: "gameLoop rnd s = Inr (Scheduled, s\<lparr>frameCount := f, lockdownTimer := lockdownTimer s + 1\<rparr>)"
    by blast
  let ?s1 = "s\<lparr>frameCount := f, lockdownTimer := lockdownTimer s + 1\<rparr>"
  have "onGround ?s1" "lockdownMode ?s1 = Classic" "lockdownTimer ?s1 + n < 15"
    using Suc.prems by (simp_all add: onGround_frame)
  from Suc.IH [OF this] obtain f'
    where "runTicks rnd n ?s1 = Inr (Scheduled, ?s1\<lparr>frameCount := f', lockdownTimer := lockdownTimer ?s1 + n\<rparr>)"
    by blast
  with tick have "runTicks rnd (Suc n) s
                    = Inr (Scheduled, s\<lparr>frameCount := f', lockdownTimer := lockdownTimer s + Suc n\<rparr>)"
    by simp
  then show ?case by blast
qed

lemma runTicks_add:
  assumes "runTicks rnd n s = Inr (Scheduled, s')"
  shows "runTicks rnd (n + m) s = runTicks rnd m s'"
  using assms
proof (induction n arbitrary: s)
  case 0
  then show ?case by simp
next
  case (Suc n)
  then show ?case
    by (auto split: sum.splits prod.splits if_splits)
qed

lemma runTicks_classic_lock:
  assumes "onGround s" "lockdownMode s = Classic" "lockdownTimer s < 15" "wf_board (board s)"
  shows "\<exists>f s'. runTicks rnd (15 - lockdownTimer s) s = Inr (Locked, s')
                \<and> lockPiece rnd (s\<lparr>frameCount := f, lockdownTimer := 15\<rparr>) = Inr s'"
proof -
  let ?n = "14 - lockdownTimer s"
  from assms(3) have n: "lockdownTimer s + ?n < 15" "lockdownTimer s + ?n = 14" "15 - lockdownTimer s = ?n + 1"
    by simp_all
  from runTicks_classic_wait [OF assms(1,2) n(1), of rnd] n(2) obtain f
    where wait: "runTicks rnd ?n s = Inr (Scheduled, s\<lparr>frameCount := f, lockdownTimer := 14\<rparr>)"
    by auto
  let ?s1 = "s\<lparr>frameCount := f, lockdownTimer := 14\<rparr>"
  have "onGround ?s1" "shouldLock (lockdownMode ?s1) (lockdownTimer ?s1 + 1) (lockdownMoves ?s1)"
    "wf_board (board ?s1)"
    using assms by (simp_all add: onGround_frame shouldLock_def)
  from gameLoop_lock [OF this, of rnd] obtain s'
    where "gameLoop rnd ?s1 = Inr (Locked, s')"
      and "lockPiece rnd (s\<lparr>frameCount := f + 1, lockdownTimer := 15\<rparr>) = Inr s'"
    by auto
  moreover from this(1) have "runTicks rnd 1 ?s1 = Inr (Locked, s')" by simp
  ultimately show ?thesis
    using runTicks_add [OF wait, of 1] n(3) by auto
qed

lemma tryKicks_classic_timer:
  assumes "lockdownMode s = Classic" "tryKicks s cp rs nr kicks = Inr s'"
  shows "lockdownTimer s' = lockdownTimer s \<and> board s' = board s"
  using assms
  by (induction kicks) (auto simp: Let_def split: sum.splits if_splits)

lemma tryKicks_board:
  assumes "tryKicks s cp rs nr kicks = Inr s'"
  shows "board s' = board s"
  using assms
  by (induction kicks) (auto simp: Let_def split: sum.splits if_splits)

lemma rotatePiece_classic_timer:
  assumes "lockdownMode s = Classic" "rotatePiece cw s = Inr s'"
  shows "lockdownTimer s' = lockdownTimer s"
  using assms tryKicks_classic_timer
  by (auto simp: rotatePiece_def Let_def split: option.splits if_splits)

lemma rotatePiece_board:
  assumes "rotatePiece cw s = Inr s'"
  shows "board s' = board s"
  using assms tryKicks_board
  by (auto simp: rotatePiece_def Let_def split: option.splits if_splits)

lemma movePiece_classic_timer:
  assumes "lockdownMode s = Classic" "movePiece rowDelta colDelta s = Inr (moved, s')"
  shows "lockdownTimer s' = lockdownTimer s"
  using assms
  by (auto simp: movePiece_def Let_def split: option.splits if_splits sum.splits)

lemma movePiece_board:
  assumes "movePiece rowDelta colDelta s = Inr (moved, s')"
  shows "board s' = board s"
  using assms
  by (auto simp: movePiece_def Let_def split: option.splits if_splits sum.splits lockdown.splits)


lemma gameLoop_locked_grounded:
  assumes "gameLoop rnd s = Inr (Locked, s')"
  shows "onGround s \<and> shouldLock (lockdownMode s) (lockdownTimer s + 1) (lockdownMoves s)"
  using assms
  by (auto simp: gameLoop_def onGround_def Let_def split: option.splits if_splits sum.splits)

text \<open>
  C4: in Classic mode a piece that is on-ground and gets no move is not locked as long
  as the timer is below 15, and the call of the game loop that takes the timer to 15
  locks it; no call of \<open>movePiece\<close> or \<open>rotatePiece\<close> changes the timer in Classic mode.
  In Infinite mode a call of the game loop locks only a piece that is on-ground and only
  by taking the timer to 90 or beyond, in whatever state the moves before have left, and
  moves and rotations themselves never write the piece into the board.
\<close>

theorem lockdown_classic_and_infinite:
  "(onGround s \<and> lockdownMode s = Classic \<and> lockdownTimer s < 15 \<and> wf_board (board s) \<longrightarrow>
      (\<forall>n. lockdownTimer s + n < 15 \<longrightarrow>
         (\<exists>f. runTicks rnd n s
                = Inr (Scheduled, s\<lparr>frameCount := f, lockdownTimer := lockdownTimer s + n\<rparr>)))
      \<and> (\<exists>f s'. runTicks rnd (15 - lockdownTimer s) s = Inr (Locked, s')
                 \<and> lockPiece rnd (s\<lparr>frameCount := f, lockdownTimer := 15\<rparr>) = Inr s'))
   \<and> (lockdownMode s = Classic \<longrightarrow>
        (\<forall>rowDelta colDelta moved s'.
            movePiece rowDelta colDelta s = Inr (moved, s') \<longrightarrow> lockdownTimer s' = lockdownTimer s)
        \<and> (\<forall>clockwise s'. rotatePiece clockwise s = Inr s' \<longrightarrow> lockdownTimer s' = lockdownTimer s))
   \<and> (lockdownMode s = Infinite \<longrightarrow>
        (\<forall>s'. gameLoop rnd s = Inr (Locked, s') \<longrightarrow> onGround s \<and> 90 \<le> lockdownTimer s + 1)
        \<and> (\<forall>rowDelta colDelta moved s'.
              movePiece rowDelta colDelta s = Inr (moved, s') \<longrightarrow> board s' = board s)
        \<and> (\<forall>clockwise s'. rotatePiece clockwise s = Inr s' \<longrightarrow> board s' = board s))"
proof (intro conjI impI allI)
  fix n
  assume "onGround s \<and> lockdownMode s = Classic \<and> lockdownTimer s < 15 \<and> wf_board (board s)"
    and "lockdownTimer s + n < 15"
  then show "\<exists>f. runTicks rnd n s
                = Inr (Scheduled, s\<lparr>frameCount := f, lockdownTimer := lockdownTimer s + n\<rparr>)"
    using runTicks_classic_wait [of s n rnd] by blast
next
  assume "onGround s \<and> lockdownMode s = Classic \<and> lockdownTimer s < 15 \<and> wf_board (board s)"
  then show "\<exists>f s'. runTicks rnd (15 - lockdownTimer s) s = Inr (Locked, s')
                 \<and> lockPiece rnd (s\<lparr>frameCount := f, lockdownTimer := 15\<rparr>) = Inr s'"
    using runTicks_classic_lock [of s rnd] by blast
next
  fix rowDelta colDelta moved s'
  assume "lockdownMode s = Classic" "movePiece rowDelta colDelta s = Inr (moved, s')"
  then show "lockdownTimer s' = lockdownTimer s" by (rule movePiece_classic_timer)
next
  fix clockwise s'
  assume "lockdownMode s = Classic" "rotatePiece clockwise s = Inr s'"
  then show "lockdownTimer s' = lockdownTimer s" by (rule rotatePiece_classic_timer)
next
  fix s'
  assume inf: "lockdownMode s = Infinite" and "gameLoop rnd s = Inr (Locked, s')"
  from gameLoop_locked_grounded [OF this(2)] inf
  show "onGround s" "90 \<le> lockdownTimer s + 1" by (simp_all add: shouldLock_def)
next
  fix rowDelta colDelta moved s'
  assume "movePiece rowDelta colDelta s = Inr (moved, s')"
  then show "board s' = board s" by (rule movePiece_board)
next
  fix clockwise s'
  assume "rotatePiece clockwise s = Inr s'"
  then show "board s' = board s" by (rule rotatePiece_board)
qed

theorem lockdown_classic_and_infinite_witness:
  "onGround (restingT Classic 0) \<and> lockdownMode (restingT Classic 0) = Classic
   \<and> lockdownTimer (restingT Classic 0) < 15 \<and> wf_board (board (restingT Classic 0))
   \<and> (\<exists>f. runTicks noRandom 14 (restingT Classic 0)
            = Inr (Scheduled, (restingT Classic 0)\<lparr>frameCount := f, lockdownTimer := 14\<rparr>))
   \<and> (\<exists>s'. runTicks noRandom 15 (restingT Classic 0) = Inr (Locked, s'))
   \<and> movePiece 0 1 (restingT Classic 0)
        = Inr (True, (restingT Classic 0)\<lparr>position := \<lparr>row = 38, col = 4\<rparr>, lockdownMoves := 1\<rparr>)
   \<and> lockdownTimer ((restingT Classic 0)\<lparr>position := \<lparr>row = 38, col = 4\<rparr>, lockdownMoves := 1\<rparr>)
        = lockdownTimer (restingT Classic 0)
   \<and> lockdownMode (restingT Infinite 89) = Infinite
   \<and> (\<exists>s'. gameLoop noRandom (restingT Infinite 89) = Inr (Locked, s'))
   \<and> onGround (restingT Infinite 89) \<and> 90 \<le> lockdownTimer (restingT Infinite 89) + 1
   \<and> map_sum id fst (gameLoop noRandom (restingT Infinite 88)) = Inr Scheduled"
proof -
  note classic = lockdown_classic_and_infinite [of "restingT Classic 0" noRandom]
  note infinite = lockdown_classic_and_infinite [of "restingT Infinite 89" noRandom]
  have g: "onGround (restingT Classic 0)" by code_simp
  have m: "lockdownMode (restingT Classic 0) = Classic" by (simp add: restingT_def)
  have t: "lockdownTimer (restingT Classic 0) < 15" by (simp add: restingT_def)
  have t0: "lockdownTimer (restingT Classic 0) = 0" by (simp add: restingT_def)
  have wf: "wf_board (board (restingT Classic 0))" by code_simp
  from classic g m t wf
  have wait: "\<forall>n. lockdownTimer (restingT Classic 0) + n < 15 \<longrightarrow>
         (\<exists>f. runTicks noRandom n (restingT Classic 0)
                = Inr (Scheduled, (restingT Classic 0)\<lparr>frameCount := f,
                         lockdownTimer := lockdownTimer (restingT Classic 0) + n\<rparr>))"
    and lock: "\<exists>f s'. runTicks noRandom (15 - lockdownTimer (restingT Classic 0)) (restingT Classic 0) = Inr (Locked, s')
                 \<and> lockPiece noRandom ((restingT Classic 0)\<lparr>frameCount := f, lockdownTimer := 15\<rparr>) = Inr s'"
    by blast+
  from wait [rule_format, of 14] t0
  have w14: "\<exists>f. runTicks noRandom 14 (restingT Classic 0)
            = Inr (Scheduled, (restingT Classic 0)\<lparr>frameCount := f, lockdownTimer := 14\<rparr>)"
    by simp
  from lock t0 have l15: "\<exists>s'. runTicks noRandom 15 (restingT Classic 0) = Inr (Locked, s')"
    by auto
  have mv: "movePiece 0 1 (restingT Classic 0)
        = Inr (True, (restingT Classic 0)\<lparr>position := \<lparr>row = 38, col = 4\<rparr>, lockdownMoves := 1\<rparr>)"
    by code_simp
  from classic m mv
  have mt: "lockdownTimer ((restingT Classic 0)\<lparr>position := \<lparr>row = 38, col = 4\<rparr>, lockdownMoves := 1\<rparr>)
        = lockdownTimer (restingT Classic 0)"
    by blast
  have mi: "lockdownMode (restingT Infinite 89) = Infinite" by (simp add: restingT_def)
  have "map_sum id fst (gameLoop noRandom (restingT Infinite 89)) = Inr Locked" by code_simp
  then have li: "\<exists>s'. gameLoop noRandom (restingT Infinite 89) = Inr (Locked, s')"
    by (cases "gameLoop noRandom (restingT Infinite 89)") auto
  with infinite mi
  have gi: "onGround (restingT Infinite 89) \<and> 90 \<le> lockdownTimer (restingT Infinite 89) + 1"
    by blast
  have before: "map_sum id fst (gameLoop noRandom (restingT Infinite 88)) = Inr Scheduled"
    by code_simp
  show ?thesis
    using g m t wf w14 l15 mv mt mi li gi before by blast
qed

subsection \<open>The move evaluator\<close>















end
